theory Spec2Isabelle
  imports Main
begin

section \<open>Strings\<close>

text \<open>
  A JavaScript string is modelled as a \<^typ>\<open>string\<close>: one \<^typ>\<open>char\<close> per UTF-16 code unit,
  for the code units below 256 (ASCII and Latin-1). The character classes below are the
  ECMAScript ones, cut down to that range: the line terminators are LF and CR (U+2028 and
  U+2029 lie outside), the white space of \<open>String.prototype.trim\<close> is TAB, LF, VT, FF, CR, SP
  and NBSP.
\<close>

definition is_line_terminator :: "char \<Rightarrow> bool" where
  "is_line_terminator c \<longleftrightarrow> c = CHR 0x0A \<or> c = CHR 0x0D"

definition is_white_space :: "char \<Rightarrow> bool" where
  "is_white_space c \<longleftrightarrow>
     c = CHR 0x09 \<or> c = CHR 0x0A \<or> c = CHR 0x0B \<or> c = CHR 0x0C \<or> c = CHR 0x0D \<or>
     c = CHR 0x20 \<or> c = CHR 0xA0"

text \<open>\<open>s.trim()\<close>\<close>

definition trim :: "string \<Rightarrow> string" where
  "trim s = rev (dropWhile is_white_space (rev (dropWhile is_white_space s)))"

text \<open>
  \<open>s.toLowerCase()\<close>: in the modelled range the letters with a lower-case partner are
  A-Z (65-90) and the Latin-1 capitals 192-214 and 216-222; the partner is 32 above.
\<close>

definition toLowerCase_char :: "char \<Rightarrow> char" where
  "toLowerCase_char c =
     (let n = of_char c :: nat
      in if (65 \<le> n \<and> n \<le> 90) \<or> (192 \<le> n \<and> n \<le> 214) \<or> (216 \<le> n \<and> n \<le> 222)
         then char_of (n + 32) else c)"

definition toLowerCase :: "string \<Rightarrow> string" where
  "toLowerCase s = map toLowerCase_char s"

text \<open>\<open>s.startsWith(p)\<close> and \<open>s.endsWith(p)\<close>\<close>

definition startsWith :: "string \<Rightarrow> string \<Rightarrow> bool" where
  "startsWith s p \<longleftrightarrow> take (length p) s = p"

definition endsWith :: "string \<Rightarrow> string \<Rightarrow> bool" where
  "endsWith s p \<longleftrightarrow> length p \<le> length s \<and> drop (length s - length p) s = p"

text \<open>\<open>s.replace(/c/g, rep)\<close> for a single character \<open>c\<close> and a literal replacement.\<close>

fun replace_all :: "char \<Rightarrow> string \<Rightarrow> string \<Rightarrow> string" where
  "replace_all c rep [] = []"
| "replace_all c rep (x # xs) =
     (if x = c then rep @ replace_all c rep xs else x # replace_all c rep xs)"

text \<open>
  \<open>m.replace(/{{|}}/g, '')\<close> (pptxProcessor, line 42): scanning from the left, every
  \<open>{{\<close> and every \<open>}}\<close> is dropped, wherever it stands in \<open>m\<close>.
\<close>

fun strip_braces :: "string \<Rightarrow> string" where
  "strip_braces (a # b # rest) =
     (if (a = CHR ''{'' \<and> b = CHR ''{'') \<or> (a = CHR ''}'' \<and> b = CHR ''}'') then strip_braces rest
      else a # strip_braces (b # rest))"
| "strip_braces s = s"

text \<open>
  The template literal \<open>${i + 1}\<close>: a natural number in decimal. (JavaScript prints numbers
  from 1e21 on in exponent form; no array is that long.)
\<close>

function string_of_nat :: "nat \<Rightarrow> string" where
  "string_of_nat n =
     (if n < 10 then [''0123456789'' ! n]
      else string_of_nat (n div 10) @ [''0123456789'' ! (n mod 10)])"
  by pat_completeness auto
termination
  by (relation "measure id") auto

declare string_of_nat.simps [simp del]

section \<open>The regular expression \<open>/{{(.*?)}}/g\<close>\<close>

text \<open>
  Both \<open>extractKeysFromPPTX\<close> (line 35) and \<open>generateBatch\<close> (line 81) use this expression.
  After the opening \<open>{{\<close> the lazy group \<open>(.*?)\<close> followed by \<open>}}\<close> tries the closing braces at
  each position before it consumes one more character, and \<open>.\<close> consumes no line terminator:
  \<open>lazy_group\<close> returns the captured text and the input left after the closing braces, or
  \<open>None\<close> when the attempt fails.
\<close>

fun closing :: "string \<Rightarrow> bool" where
  "closing (a # b # rest) \<longleftrightarrow> a = CHR ''}'' \<and> b = CHR ''}''"
| "closing _ \<longleftrightarrow> False"

fun lazy_group :: "string \<Rightarrow> (string \<times> string) option" where
  "lazy_group [] = None"
| "lazy_group (c # cs) =
     (if closing (c # cs) then Some ([], tl cs)
      else if is_line_terminator c then None
      else (case lazy_group cs of
              None \<Rightarrow> None
            | Some (captured, rest) \<Rightarrow> Some (c # captured, rest)))"

text \<open>One attempt of the whole expression at the start of the input.\<close>

definition regex_exec :: "string \<Rightarrow> (string \<times> string) option" where
  "regex_exec s =
     (case s of
        a # b # rest \<Rightarrow> if a = CHR ''{'' \<and> b = CHR ''{'' then lazy_group rest else None
      | _ \<Rightarrow> None)"

lemma lazy_group_shorter: "lazy_group xs = Some (k, rest) \<Longrightarrow> length rest < length xs"
proof (induction xs arbitrary: k)
  case Nil
  then show ?case by simp
next
  case (Cons c cs)
  show ?case
  proof (cases "closing (c # cs)")
    case True
    with Cons.prems show ?thesis by (cases cs) auto
  next
    case False
    with Cons.prems obtain k' where "lazy_group cs = Some (k', rest)"
      by (auto split: if_splits option.splits)
    from Cons.IH [OF this] show ?thesis by simp
  qed
qed

lemma regex_exec_shorter: "regex_exec xs = Some (k, rest) \<Longrightarrow> length rest < length xs"
  by (auto simp: regex_exec_def split: list.splits if_splits dest: lazy_group_shorter)

text \<open>
  The global scan that \<open>String.prototype.match\<close> and \<open>String.prototype.replace\<close> share: at
  each position the expression is tried; a match (never empty) is recorded with its matched
  text and its captured group and the scan goes on after it, otherwise the character is
  passed over and the scan goes on one position to the right.
\<close>

datatype piece = Lit char | Match string string

function regex_pieces :: "string \<Rightarrow> piece list" where
  "regex_pieces [] = []"
| "regex_pieces (c # cs) =
     (case regex_exec (c # cs) of
        Some (captured, rest) \<Rightarrow> Match (''{{'' @ captured @ ''}}'') captured # regex_pieces rest
      | None \<Rightarrow> Lit c # regex_pieces cs)"
  by pat_completeness auto
termination
  by (relation "measure length") (auto dest: regex_exec_shorter)

text \<open>The exceptions that the code throws or lets pass.\<close>

datatype exn = ZipError | SlideNotFound | CsvError | CsvEmpty | TypeError

text \<open>
  \<open>s.replace(regex, replacer)\<close>: the replacer function is called, match after match from
  the left, with the matched text and the captured group; what lies between matches is
  copied. An exception thrown by the replacer leaves \<open>replace\<close> at once.
\<close>

fun prepend :: "string \<Rightarrow> exn + string \<Rightarrow> exn + string" where
  "prepend s (Inl e) = Inl e"
| "prepend s (Inr t) = Inr (s @ t)"

fun replace_pieces :: "(string \<Rightarrow> string \<Rightarrow> exn + string) \<Rightarrow> piece list \<Rightarrow> exn + string" where
  "replace_pieces replacer [] = Inr []"
| "replace_pieces replacer (Lit c # pieces) = prepend [c] (replace_pieces replacer pieces)"
| "replace_pieces replacer (Match m captured # pieces) =
     (case replacer m captured of
        Inl e \<Rightarrow> Inl e
      | Inr s \<Rightarrow> prepend s (replace_pieces replacer pieces))"

definition string_replace :: "(string \<Rightarrow> string \<Rightarrow> exn + string) \<Rightarrow> string \<Rightarrow> exn + string" where
  "string_replace replacer s = replace_pieces replacer (regex_pieces s)"

text \<open>\<open>s.match(regex)\<close>: the matched texts in order, \<open>null\<close> (here \<open>None\<close>) when there is none.\<close>

fun matched :: "piece \<Rightarrow> string list" where
  "matched (Lit c) = []"
| "matched (Match m captured) = [m]"

definition string_match :: "string \<Rightarrow> string list option" where
  "string_match s =
     (case concat (map matched (regex_pieces s)) of [] \<Rightarrow> None | m # ms \<Rightarrow> Some (m # ms))"

section \<open>Objects and archives\<close>

text \<open>
  A plain object (\<open>CsvRow\<close>, \<open>ColumnMapping\<close>) has its own properties, an association list
  in enumeration order, and a prototype, which is \<open>Object.prototype\<close> or \<open>null\<close>. The \<open>null\<close>
  value of a \<open>ColumnMapping\<close> entry is the inner \<open>None\<close>. \<open>Object.prototype\<close> is taken as the
  language defines it, with the twelve members listed below. (Own properties whose names
  are array indices come first in JavaScript's enumeration order; the lists here are in
  that order already, and no result below depends on the place of a property that an
  assignment adds.)
\<close>

record 'v object =
  own :: "(string \<times> 'v) list"
  proto :: bool

type_synonym CsvRow = "string object"

type_synonym ColumnMapping = "string option object"

text \<open>An object written as a literal or built by \<open>{}\<close>: its prototype is \<open>Object.prototype\<close>.\<close>

definition plain :: "(string \<times> 'v) list \<Rightarrow> 'v object" where
  "plain properties = \<lparr>own = properties, proto = True\<rparr>"

definition object_prototype_names :: "string list" where
  "object_prototype_names =
     [''constructor'', ''__defineGetter__'', ''__defineSetter__'', ''hasOwnProperty'',
      ''__lookupGetter__'', ''__lookupSetter__'', ''isPrototypeOf'', ''propertyIsEnumerable'',
      ''toString'', ''valueOf'', ''__proto__'', ''toLocaleString'']"

text \<open>
  \<open>obj[name]\<close>: the own property if there is one, else the member of \<open>Object.prototype\<close> of
  that name (a function; for \<open>__proto__\<close> the prototype object itself), else \<open>undefined\<close>.
\<close>

datatype 'v lookup = Undefined | Own 'v | Inherited string

definition obj_get :: "'v object \<Rightarrow> string \<Rightarrow> 'v lookup" where
  "obj_get obj name =
     (case map_of (own obj) name of
        Some v \<Rightarrow> Own v
      | None \<Rightarrow> if proto obj \<and> name \<in> set object_prototype_names then Inherited name
                else Undefined)"

text \<open>
  A member of \<open>Object.prototype\<close> used as a property key is converted to a string:
  \<open>[object Object]\<close> for the prototype object, the source text of a native function for the
  others. That text is defined by the engine; this is the one of V8 and JavaScriptCore.
\<close>

definition builtin_string :: "string \<Rightarrow> string" where
  "builtin_string name =
     (if name = ''__proto__'' then ''[object Object]''
      else ''function '' @ (if name = ''constructor'' then ''Object'' else name) @
           ''() { [native code] }'')"

text \<open>An assignment to a table of properties replaces the value in place or appends.\<close>

fun assign :: "'k \<Rightarrow> 'v \<Rightarrow> ('k \<times> 'v) list \<Rightarrow> ('k \<times> 'v) list" where
  "assign name data [] = [(name, data)]"
| "assign name data ((n, d) # entries) =
     (if n = name then (name, data) # entries else (n, d) # assign name data entries)"

text \<open>
  \<open>newMapping[key] = v\<close> for \<open>v\<close> a string or \<open>null\<close>. The members of \<open>Object.prototype\<close> are
  writable data properties, which an assignment shadows by an own property, except
  \<open>__proto__\<close>: on an object that inherits it, the assignment calls its setter, which makes no
  property, sets the prototype to \<open>null\<close> when \<open>v\<close> is \<open>null\<close> and ignores a string.
\<close>

definition set_mapping :: "string \<Rightarrow> string option \<Rightarrow> ColumnMapping \<Rightarrow> ColumnMapping" where
  "set_mapping key v obj =
     (if map_of (own obj) key = None \<and> proto obj \<and> key = ''__proto__''
      then (case v of None \<Rightarrow> obj\<lparr>proto := False\<rparr> | Some s \<Rightarrow> obj)
      else obj\<lparr>own := assign key v (own obj)\<rparr>)"

text \<open>
  An archive is the table of its file entries, path to text content (the paths and file
  names used below are no names of \<open>Object.prototype\<close>). A \<open>File\<close> handed to
  \<open>JSZip.loadAsync\<close> either is no valid package, and the call rejects, or decodes to an
  archive; serialising an archive to a blob is the identity here.
\<close>

type_synonym JSZip = "(string \<times> string) list"

datatype File = Corrupt | Package JSZip

fun loadAsync :: "File \<Rightarrow> exn + JSZip" where
  "loadAsync Corrupt = Inl ZipError"
| "loadAsync (Package archive) = Inr archive"

section \<open>Placeholder extraction (\<open>extractKeysFromPPTX\<close>)\<close>

text \<open>\<open>Array.from(new Set(xs))\<close>: the distinct elements in order of first appearance.\<close>

definition set_add :: "'a list \<Rightarrow> 'a \<Rightarrow> 'a list" where
  "set_add s x = (if x \<in> set s then s else s @ [x])"

definition array_from_set :: "'a list \<Rightarrow> 'a list" where
  "array_from_set xs = foldl set_add [] xs"

text \<open>Lines 35-43: the keys of one slide's text.\<close>

definition template_keys :: "string \<Rightarrow> string list" where
  "template_keys slideContent =
     (case string_match slideContent of
        None \<Rightarrow> []
      | Some matches \<Rightarrow> array_from_set (map (\<lambda>m. trim (strip_braces m)) matches))"

text \<open>Lines 22-44, the body of the \<open>try\<close>: a rejected decode and the missing slide are thrown.\<close>

definition extractKeys_try :: "File \<Rightarrow> exn + string list" where
  "extractKeys_try file =
     (case loadAsync file of
        Inl e \<Rightarrow> Inl e
      | Inr archive \<Rightarrow>
          (case map_of archive ''ppt/slides/slide1.xml'' of
             None \<Rightarrow> Inl SlideNotFound
           | Some slideContent \<Rightarrow> Inr (template_keys slideContent)))"

text \<open>Lines 45-48: the \<open>catch\<close> turns every exception into the empty list.\<close>

definition extractKeysFromPPTX :: "File \<Rightarrow> string list" where
  "extractKeysFromPPTX file =
     (case extractKeys_try file of Inl e \<Rightarrow> [] | Inr uniqueKeys \<Rightarrow> uniqueKeys)"

section \<open>The batch engine (\<open>generateBatch\<close>)\<close>

text \<open>Lines 94-99: the five replacements, in the order of the source.\<close>

definition escapeXml :: "string \<Rightarrow> string" where
  "escapeXml v =
     replace_all (CHR 0x27) ''&apos;''
       (replace_all (CHR 0x22) ''&quot;''
         (replace_all CHR ''>'' ''&gt;''
           (replace_all CHR ''<'' ''&lt;''
             (replace_all CHR ''&'' ''&amp;'' v))))"

text \<open>
  Lines 82-104, the replacer function. \<open>csvColumnName && ...\<close> is false for \<open>undefined\<close>,
  \<open>null\<close> and the empty string and true for a member of \<open>Object.prototype\<close>, which then is
  converted to a property key. \<open>row[csvColumnName] || ""\<close> is the value itself unless it is
  the empty string. \<open>value.replace\<close> on a member of \<open>Object.prototype\<close> (none of them has a
  property \<open>replace\<close>) throws a \<open>TypeError\<close>.
\<close>

fun truthy :: "string option lookup \<Rightarrow> bool" where
  "truthy Undefined \<longleftrightarrow> False"
| "truthy (Own None) \<longleftrightarrow> False"
| "truthy (Own (Some s)) \<longleftrightarrow> s \<noteq> []"
| "truthy (Inherited name) \<longleftrightarrow> True"

fun property_key :: "string option lookup \<Rightarrow> string" where
  "property_key Undefined = ''undefined''"
| "property_key (Own None) = ''null''"
| "property_key (Own (Some s)) = s"
| "property_key (Inherited name) = builtin_string name"

definition replacer :: "ColumnMapping \<Rightarrow> CsvRow \<Rightarrow> string \<Rightarrow> string \<Rightarrow> exn + string" where
  "replacer mapping row match capturedKey =
     (let cleanKey = trim capturedKey;
          csvColumnName = obj_get mapping cleanKey
      in if truthy csvColumnName \<and> obj_get row (property_key csvColumnName) \<noteq> Undefined
         then (case obj_get row (property_key csvColumnName) of
                 Own v \<Rightarrow> Inr (escapeXml (if v \<noteq> [] then v else []))
               | Inherited name \<Rightarrow> Inl TypeError
               | Undefined \<Rightarrow> Inr match)
         else Inr match)"

text \<open>Lines 81-104: \<open>content.replace(regex, ...)\<close> for one slide's text.\<close>

definition substitute :: "ColumnMapping \<Rightarrow> CsvRow \<Rightarrow> string \<Rightarrow> exn + string" where
  "substitute mapping row content = string_replace (replacer mapping row) content"

text \<open>Lines 73-108: the loop over the slide paths, writing each rewritten text back.\<close>

fun replace_slides :: "ColumnMapping \<Rightarrow> CsvRow \<Rightarrow> string list \<Rightarrow> JSZip \<Rightarrow> exn + JSZip" where
  "replace_slides mapping row [] pptxZip = Inr pptxZip"
| "replace_slides mapping row (slidePath # slideFiles) pptxZip =
     (case map_of pptxZip slidePath of
        None \<Rightarrow> replace_slides mapping row slideFiles pptxZip
      | Some content \<Rightarrow>
          (case substitute mapping row content of
             Inl e \<Rightarrow> Inl e
           | Inr replaced \<Rightarrow>
               replace_slides mapping row slideFiles (assign slidePath replaced pptxZip)))"

text \<open>Lines 69-111: one row's archive, from a fresh decode of the template.\<close>

definition generate_pptx :: "ColumnMapping \<Rightarrow> CsvRow \<Rightarrow> JSZip \<Rightarrow> exn + JSZip" where
  "generate_pptx mapping row pptxZip =
     (let slideFiles =
            filter (\<lambda>path. startsWith path ''ppt/slides/slide'' \<and> endsWith path ''.xml'')
              (map fst pptxZip)
      in replace_slides mapping row slideFiles pptxZip)"

text \<open>
  Line 114: \<open>replace(/[^a-z0-9]/gi, '_')\<close> and the file name. Without the \<open>u\<close> flag the
  \<open>i\<close> flag never lets a non-ASCII character match an ASCII letter, so exactly the ASCII
  letters and digits are kept.
\<close>

definition sanitize :: "string \<Rightarrow> string" where
  "sanitize s =
     map (\<lambda>c. if c \<in> set ''abcdefghijklmnopqrstuvwxyzABCDEFGHIJKLMNOPQRSTUVWXYZ0123456789''
              then c else CHR ''_'') s"

definition fileName :: "nat \<Rightarrow> CsvRow \<Rightarrow> string" where
  "fileName i row =
     ''slide_'' @ string_of_nat (i + 1) @ ''_'' @
     (case map snd (own row) of
        [] \<Rightarrow> ''generated''
      | v # _ \<Rightarrow> if sanitize v \<noteq> [] then sanitize v else ''generated'') @
     ''.pptx''"

text \<open>
  The loop of lines 62-120. Its effects on the outside are the calls \<open>masterZip.file(...)\<close>
  and \<open>onProgress(...)\<close>; the state records the outer archive and, in order, these calls.
  The template is decoded anew for every row. A rejected decode and an exception of the
  replacer end the batch: the promise rejects (\<open>Inl\<close>, with the state reached), after the
  calls made for the rows before.
\<close>

datatype event = MasterZipFile string JSZip | OnProgress nat nat

record batch =
  masterZip :: "(string \<times> JSZip) list"
  events :: "event list"

fun batch_loop ::
  "File \<Rightarrow> ColumnMapping \<Rightarrow> nat \<Rightarrow> nat \<Rightarrow> CsvRow list \<Rightarrow> batch \<Rightarrow> exn \<times> batch + batch" where
  "batch_loop templateFile mapping total' i [] st = Inr st"
| "batch_loop templateFile mapping total' i (row # data) st =
     (case loadAsync templateFile of
        Inl e \<Rightarrow> Inl (e, st)
      | Inr pptxZip \<Rightarrow>
          (case generate_pptx mapping row pptxZip of
             Inl e \<Rightarrow> Inl (e, st)
           | Inr pptxBlob \<Rightarrow>
               (let name = fileName i row
                in batch_loop templateFile mapping total' (i + 1) data
                     (st\<lparr>masterZip := assign name pptxBlob (masterZip st),
                         events := events st @
                           [MasterZipFile name pptxBlob, OnProgress (i + 1) total']\<rparr>))))"

definition generateBatch :: "File \<Rightarrow> CsvRow list \<Rightarrow> ColumnMapping \<Rightarrow> exn \<times> batch + batch" where
  "generateBatch templateFile data mapping =
     batch_loop templateFile mapping (length data) 0 data \<lparr>masterZip = [], events = []\<rparr>"

section \<open>The application (\<open>App\<close>)\<close>

text \<open>
  Lines 52-59 of \<open>App\<close>, the automatic matching inside \<open>analyzeFiles\<close>: for each template
  key, \<open>headers.find(h => h.trim().toLowerCase() === key.toLowerCase())\<close>, and
  \<open>newMapping[key] = matchedHeader || null\<close>, where \<open>||\<close> takes \<open>null\<close> for \<open>undefined\<close> and for
  the empty string.
\<close>

definition auto_match :: "string list \<Rightarrow> string list \<Rightarrow> ColumnMapping" where
  "auto_match templateKeys headers =
     foldl (\<lambda>newMapping key.
              let matchedHeader = find (\<lambda>h. toLowerCase (trim h) = toLowerCase key) headers
              in set_mapping key (case matchedHeader of
                                    Some h \<Rightarrow> if h \<noteq> [] then Some h else None
                                  | None \<Rightarrow> None) newMapping)
       (plain []) templateKeys"

text \<open>
  The CSV parser is a collaborator: a \<open>CsvFile\<close> stands for what \<open>Papa.parse\<close> makes of the
  file, an error or the rows.
\<close>

datatype CsvFile = Unreadable | Csv "CsvRow list"

fun parseCSV :: "CsvFile \<Rightarrow> exn + CsvRow list" where
  "parseCSV Unreadable = Inl CsvError"
| "parseCSV (Csv rows) = Inr rows"

text \<open>The state variables of the component (lines 8-22) and their initial values.\<close>

record PreviewData =
  csvHeaders :: "string list"
  templateKeys :: "string list"
  rowCount :: nat

record ProcessingStats =
  total :: nat
  processed :: nat
  isProcessing :: bool
  isComplete :: bool

datatype message = AnalyzeFailed | GenerateFailed

record AppState =
  templateFile :: "File option"
  csvFile :: "CsvFile option"
  csvData :: "CsvRow list"
  previewData :: "PreviewData option"
  downloadUrl :: "(string \<times> JSZip) list option"
  mapping :: ColumnMapping
  stats :: ProcessingStats
  error :: "message option"

definition initial :: AppState where
  "initial =
     \<lparr>templateFile = None, csvFile = None, csvData = [], previewData = None,
      downloadUrl = None, mapping = plain [],
      stats = \<lparr>total = 0, processed = 0, isProcessing = False, isComplete = False\<rparr>,
      error = None\<rparr>"

text \<open>
  Lines 33-59, the body of the \<open>try\<close> of \<open>analyzeFiles\<close>: the error of the parser and the
  error thrown for an empty CSV (line 38) leave it before any state is set.
\<close>

definition analyze_try :: "File \<Rightarrow> CsvFile \<Rightarrow> exn + CsvRow list \<times> PreviewData \<times> ColumnMapping" where
  "analyze_try template csv =
     (case parseCSV csv of
        Inl e \<Rightarrow> Inl e
      | Inr data \<Rightarrow>
          (case data of
             [] \<Rightarrow> Inl CsvEmpty
           | first # _ \<Rightarrow>
               (let headers = map fst (own first);
                    keys = extractKeysFromPPTX template
                in Inr (data,
                        \<lparr>csvHeaders = headers, templateKeys = keys, rowCount = length data\<rparr>,
                        auto_match keys headers))))"

text \<open>Lines 26-65: \<open>analyzeFiles\<close> with its \<open>catch\<close>.\<close>

definition analyzeFiles :: "AppState \<Rightarrow> AppState" where
  "analyzeFiles st =
     (case (templateFile st, csvFile st) of
        (Some template, Some csv) \<Rightarrow>
          (case analyze_try template csv of
             Inl e \<Rightarrow> st\<lparr>error := Some AnalyzeFailed\<rparr>
           | Inr (data, preview, newMapping) \<Rightarrow>
               st\<lparr>error := None, csvData := data, previewData := Some preview,
                  mapping := newMapping\<rparr>)
      | _ \<Rightarrow> st\<lparr>previewData := None, mapping := plain []\<rparr>)"

text \<open>
  Lines 70-108: \<open>handleGenerate\<close>. The callback handed to \<open>generateBatch\<close> stores each
  progress call in \<open>stats\<close>, also those made before a batch fails; \<open>confirm\<close> is the
  user's answer to the dialog of line 76.
\<close>

fun report :: "AppState \<Rightarrow> event \<Rightarrow> AppState" where
  "report st (OnProgress current n) = st\<lparr>stats := (stats st)\<lparr>processed := current, total := n\<rparr>\<rparr>"
| "report st (MasterZipFile name blob) = st"

definition handleGenerate :: "bool \<Rightarrow> AppState \<Rightarrow> AppState" where
  "handleGenerate confirm st =
     (case templateFile st of
        None \<Rightarrow> st
      | Some template \<Rightarrow>
          if length (csvData st) = 0 then st
          else if \<not> list_ex (\<lambda>v. v \<noteq> None) (map snd (own (mapping st))) \<and> \<not> confirm
          then st
          else
            (let st1 = st\<lparr>stats := \<lparr>total = length (csvData st), processed = 0,
                                     isProcessing = True, isComplete = False\<rparr>,
                           downloadUrl := None\<rparr>
             in case generateBatch template (csvData st) (mapping st) of
                  Inr b \<Rightarrow>
                    (let st2 = foldl report st1 (events b)
                     in st2\<lparr>downloadUrl := Some (masterZip b),
                            stats := (stats st2)\<lparr>isProcessing := False, isComplete := True\<rparr>\<rparr>)
                | Inl (e, b) \<Rightarrow>
                    (let st2 = foldl report st1 (events b)
                     in st2\<lparr>error := Some GenerateFailed,
                            stats := (stats st2)\<lparr>isProcessing := False\<rparr>\<rparr>)))"

section \<open>Vocabulary of the specification\<close>

text \<open>\<open>has_pair c s\<close>: the two-character text \<open>cc\<close> occurs in \<open>s\<close>.\<close>

fun has_pair :: "char \<Rightarrow> string \<Rightarrow> bool" where
  "has_pair c (a # b # rest) \<longleftrightarrow> (a = c \<and> b = c) \<or> has_pair c (b # rest)"
| "has_pair c _ \<longleftrightarrow> False"

text \<open>
  The text between the braces of a placeholder \<open>{{...}}\<close>, as the specification describes
  the tokens: it holds no line terminator, and the closing braces are the first \<open>}}\<close> after
  the opening ones.
\<close>

definition lazy_capture :: "string \<Rightarrow> bool" where
  "lazy_capture captured \<longleftrightarrow>
     list_all (\<lambda>c. \<not> is_line_terminator c) captured \<and> \<not> has_pair CHR ''}'' (captured @ ''}'')"

text \<open>The escaping of one character, as the specification lists it.\<close>

fun escape_char :: "char \<Rightarrow> string" where
  "escape_char c =
     (if c = CHR ''&'' then ''&amp;''
      else if c = CHR ''<'' then ''&lt;''
      else if c = CHR ''>'' then ''&gt;''
      else if c = CHR 0x22 then ''&quot;''
      else if c = CHR 0x27 then ''&apos;''
      else [c])"

text \<open>
  A markup-entity decoder for the five predefined entities: scanning from the left, each of
  \<open>&amp;\<close>, \<open>&lt;\<close>, \<open>&gt;\<close>, \<open>&quot;\<close>, \<open>&apos;\<close> becomes its character; everything else is
  copied.
\<close>

fun decode_entities :: "string \<Rightarrow> string" where
  "decode_entities [] = []"
| "decode_entities (c # cs) =
     (if c = CHR ''&'' \<and> take 4 cs = ''amp;'' then CHR ''&'' # decode_entities (drop 4 cs)
      else if c = CHR ''&'' \<and> take 3 cs = ''lt;'' then CHR ''<'' # decode_entities (drop 3 cs)
      else if c = CHR ''&'' \<and> take 3 cs = ''gt;'' then CHR ''>'' # decode_entities (drop 3 cs)
      else if c = CHR ''&'' \<and> take 5 cs = ''quot;'' then CHR 0x22 # decode_entities (drop 5 cs)
      else if c = CHR ''&'' \<and> take 5 cs = ''apos;'' then CHR 0x27 # decode_entities (drop 5 cs)
      else c # decode_entities cs)"

text \<open>The progress calls among the calls of a batch.\<close>

fun progress_calls :: "event list \<Rightarrow> (nat \<times> nat) list" where
  "progress_calls [] = []"
| "progress_calls (OnProgress current total' # es) = (current, total') # progress_calls es"
| "progress_calls (MasterZipFile name blob # es) = progress_calls es"

text \<open>
  The calls that one row contributes, and the file names of the rows of a batch; a row's
  archive \<open>blob\<close> is produced when the template decodes and the substitution of the row into
  it succeeds with \<open>blob\<close>.
\<close>

definition row_events :: "nat \<Rightarrow> (nat \<times> CsvRow) \<times> JSZip \<Rightarrow> event list" where
  "row_events n irb =
     [MasterZipFile (fileName (fst (fst irb)) (snd (fst irb))) (snd irb),
      OnProgress (fst (fst irb) + 1) n]"

definition file_names :: "CsvRow list \<Rightarrow> string list" where
  "file_names data = map (\<lambda>ir. fileName (fst ir) (snd ir)) (enumerate 0 data)"

definition produced :: "File \<Rightarrow> ColumnMapping \<Rightarrow> CsvRow \<Rightarrow> JSZip \<Rightarrow> bool" where
  "produced template m row blob \<longleftrightarrow>
     (case loadAsync template of
        Inl e \<Rightarrow> False
      | Inr archive \<Rightarrow> generate_pptx m row archive = Inr blob)"

text \<open>The captured groups of all matches in a text.\<close>

fun captured_group :: "piece \<Rightarrow> string list" where
  "captured_group (Lit c) = []"
| "captured_group (Match m captured) = [captured]"

definition captures :: "string \<Rightarrow> string list" where
  "captures s = concat (map captured_group (regex_pieces s))"

text \<open>
  A name is inherited by an object when the object has no own property of that name, its
  prototype is \<open>Object.prototype\<close> and the name is that of a member of \<open>Object.prototype\<close>.
\<close>

definition inherited :: "'v object \<Rightarrow> string \<Rightarrow> bool" where
  "inherited obj name \<longleftrightarrow>
     proto obj \<and> map_of (own obj) name = None \<and> name \<in> set object_prototype_names"

text \<open>
  The value of a key: the row's own field under the column name that the mapping's own
  entry gives the key, when that name is not empty. A key is mapped and present when it has
  a value. The lookups of a key stay with own properties when neither the key is inherited
  by the mapping nor its column name by the row.
\<close>

definition own_value :: "ColumnMapping \<Rightarrow> CsvRow \<Rightarrow> string \<Rightarrow> string option" where
  "own_value m r key =
     (case map_of (own m) key of
        Some (Some column) \<Rightarrow> if column = [] then None else map_of (own r) column
      | _ \<Rightarrow> None)"

definition mapped_and_present :: "ColumnMapping \<Rightarrow> CsvRow \<Rightarrow> string \<Rightarrow> bool" where
  "mapped_and_present m r key \<longleftrightarrow> own_value m r key \<noteq> None"

definition own_lookups :: "ColumnMapping \<Rightarrow> CsvRow \<Rightarrow> string \<Rightarrow> bool" where
  "own_lookups m r key \<longleftrightarrow>
     \<not> inherited m key \<and>
     (case map_of (own m) key of Some (Some column) \<Rightarrow> \<not> inherited r column | _ \<Rightarrow> True)"

section \<open>The scan\<close>

lemma has_pair_Cons: "\<not> has_pair c (a # xs) \<Longrightarrow> \<not> has_pair c xs"
  by (cases xs) auto

lemma lazy_group_capture:
  "lazy_capture captured \<Longrightarrow> lazy_group (captured @ ''}}'' @ post) = Some (captured, post)"
proof (induction captured)
  case Nil
  show ?case by simp
next
  case (Cons c cs)
  from Cons.prems have nl: "\<not> is_line_terminator c" and cs: "lazy_capture cs"
    and np: "\<not> has_pair CHR ''}'' (c # cs @ ''}'')"
    by (auto simp: lazy_capture_def dest: has_pair_Cons)
  from np have "\<not> closing ((c # cs) @ ''}}'' @ post)"
    by (cases cs) auto
  with nl Cons.IH [OF cs] show ?case by simp
qed

lemma lazy_group_sound:
  "lazy_group xs = Some (captured, rest) \<Longrightarrow>
   lazy_capture captured \<and> xs = captured @ ''}}'' @ rest"
proof (induction xs arbitrary: captured)
  case Nil
  then show ?case by simp
next
  case (Cons c cs)
  show ?case
  proof (cases "closing (c # cs)")
    case True
    with Cons.prems show ?thesis
      by (cases "c # cs" rule: closing.cases) (auto simp: lazy_capture_def)
  next
    case False
    with Cons.prems obtain k where k: "lazy_group cs = Some (k, rest)" and c: "captured = c # k"
      and nl: "\<not> is_line_terminator c"
      by (auto split: if_splits option.splits)
    from Cons.IH [OF k] have ih: "lazy_capture k" "cs = k @ ''}}'' @ rest" by simp_all
    from False ih(2) have "\<not> (c = CHR ''}'' \<and> hd (k @ ''}'') = CHR ''}'')"
      by (cases k) auto
    with ih(1) have "\<not> has_pair CHR ''}'' (c # k @ ''}'')"
      by (cases k) (auto simp: lazy_capture_def)
    with ih nl c show ?thesis by (simp add: lazy_capture_def)
  qed
qed

lemma regex_exec_token:
  "lazy_capture captured \<Longrightarrow>
   regex_exec (''{{'' @ captured @ ''}}'' @ post) = Some (captured, post)"
  using lazy_group_capture [of captured post] by (simp add: regex_exec_def)

lemma regex_exec_sound:
  "regex_exec xs = Some (captured, rest) \<Longrightarrow>
   lazy_capture captured \<and> xs = ''{{'' @ captured @ ''}}'' @ rest"
  by (auto simp: regex_exec_def split: list.splits if_splits dest: lazy_group_sound)

lemma regex_pieces_token:
  "lazy_capture captured \<Longrightarrow>
   regex_pieces (''{{'' @ captured @ ''}}'' @ post) =
     Match (''{{'' @ captured @ ''}}'') captured # regex_pieces post"
  using regex_exec_token [of captured post] by simp

lemma regex_pieces_literal:
  "\<not> has_pair CHR ''{'' (pre @ ''{'') \<Longrightarrow>
   regex_pieces (pre @ ys) = map Lit pre @ regex_pieces ys"
proof (induction pre)
  case Nil
  show ?case by simp
next
  case (Cons c pre)
  from Cons.prems have tl: "\<not> has_pair CHR ''{'' (pre @ ''{'')"
    by (auto dest: has_pair_Cons)
  from Cons.prems have "regex_exec ((c # pre) @ ys) = None"
    by (cases pre; cases ys) (auto simp: regex_exec_def)
  with Cons.IH [OF tl] show ?case by simp
qed

section \<open>Substitution\<close>

lemma prepend_Nil: "prepend [] res = res"
  by (cases res) auto

lemma prepend_prepend: "prepend s (prepend t res) = prepend (s @ t) res"
  by (cases res) auto

lemma replace_pieces_literals:
  "replace_pieces f (map Lit xs @ pieces) = prepend xs (replace_pieces f pieces)"
  by (induction xs) (auto simp: prepend_Nil prepend_prepend)

lemma substitute_Nil: "substitute m r [] = Inr []"
  by (simp add: substitute_def string_replace_def)

lemma substitute_literal:
  "\<not> has_pair CHR ''{'' (pre @ ''{'') \<Longrightarrow>
   substitute m r (pre @ ys) = prepend pre (substitute m r ys)"
  by (simp add: substitute_def string_replace_def regex_pieces_literal replace_pieces_literals)

lemma substitute_token:
  "lazy_capture captured \<Longrightarrow>
   substitute m r (''{{'' @ captured @ ''}}'' @ post) =
     (case replacer m r (''{{'' @ captured @ ''}}'') captured of
        Inl e \<Rightarrow> Inl e
      | Inr s \<Rightarrow> prepend s (substitute m r post))"
  by (simp only: substitute_def string_replace_def regex_pieces_token replace_pieces.simps)

lemma replace_all_append:
  "replace_all c rep (xs @ ys) = replace_all c rep xs @ replace_all c rep ys"
  by (induction xs) auto

lemma escapeXml_Cons: "escapeXml (c # v) = escape_char c @ escapeXml v"
  by (simp add: escapeXml_def replace_all_append)

lemma escapeXml_charwise: "escapeXml v = concat (map escape_char v)"
proof (induction v)
  case Nil
  show ?case by (simp add: escapeXml_def)
next
  case (Cons c v)
  then show ?case by (simp only: escapeXml_Cons list.map concat.simps)
qed

lemma obj_get_own: "\<not> inherited obj name \<Longrightarrow>
  obj_get obj name = (case map_of (own obj) name of Some v \<Rightarrow> Own v | None \<Rightarrow> Undefined)"
  by (auto simp: obj_get_def inherited_def split: option.splits)

lemma replacer_own:
  assumes "own_lookups m r (trim captured)"
  shows "replacer m r tok captured =
           Inr (case own_value m r (trim captured) of Some v \<Rightarrow> escapeXml v | None \<Rightarrow> tok)"
proof -
  from assms have m: "\<not> inherited m (trim captured)"
    by (simp add: own_lookups_def)
  show ?thesis
  proof (cases "map_of (own m) (trim captured)")
    case None
    with m show ?thesis
      by (simp add: replacer_def Let_def obj_get_own own_value_def)
  next
    case (Some entry)
    show ?thesis
    proof (cases entry)
      case None
      with Some m show ?thesis
        by (simp add: replacer_def Let_def obj_get_own own_value_def)
    next
      case (Some column)
      with \<open>map_of (own m) (trim captured) = Some entry\<close> assms
      have r: "\<not> inherited r column" by (simp add: own_lookups_def)
      from Some \<open>map_of (own m) (trim captured) = Some entry\<close> m r show ?thesis
        by (cases "map_of (own r) column")
          (simp_all add: replacer_def Let_def obj_get_own own_value_def)
    qed
  qed
qed





text \<open>
  Outside the theorem is a column name that the row inherits: the mapping gives \<open>A\<close> the
  column \<open>constructor\<close> and the row has no such field; \<open>row[csvColumnName]\<close> is then the
  function \<open>Object\<close>, not \<open>undefined\<close>, and \<open>value.replace\<close> throws.
\<close>

lemma inherited_column_throws:
  "substitute (plain [(''A'', Some ''constructor'')]) (plain [(''Name'', ''x'')]) ''{{A}}'' =
     Inl TypeError"
  by (simp add: substitute_def string_replace_def regex_exec_def is_line_terminator_def
      replacer_def trim_def is_white_space_def plain_def obj_get_def
      object_prototype_names_def)

section \<open>Escaping\<close>

lemma decode_amp: "decode_entities (''&amp;'' @ ys) = CHR ''&'' # decode_entities ys"
  by simp

lemma decode_lt: "decode_entities (''&lt;'' @ ys) = CHR ''<'' # decode_entities ys"
  by simp

lemma decode_gt: "decode_entities (''&gt;'' @ ys) = CHR ''>'' # decode_entities ys"
  by simp

lemma decode_quot: "decode_entities (''&quot;'' @ ys) = CHR 0x22 # decode_entities ys"
  by simp

lemma decode_apos: "decode_entities (''&apos;'' @ ys) = CHR 0x27 # decode_entities ys"
  by simp

lemma decode_other: "c \<noteq> CHR ''&'' \<Longrightarrow> decode_entities (c # ys) = c # decode_entities ys"
  by simp

lemma decode_escape_char: "decode_entities (escape_char c @ ys) = c # decode_entities ys"
proof -
  consider "c = CHR ''&''" | "c = CHR ''<''" | "c = CHR ''>''" | "c = CHR 0x22" | "c = CHR 0x27"
    | "c \<noteq> CHR ''&''" "c \<noteq> CHR ''<''" "c \<noteq> CHR ''>''" "c \<noteq> CHR 0x22" "c \<noteq> CHR 0x27"
    by blast
  then show ?thesis
  proof cases
    case 1 then show ?thesis using decode_amp [of ys] by simp
  next
    case 2 then show ?thesis using decode_lt [of ys] by simp
  next
    case 3 then show ?thesis using decode_gt [of ys] by simp
  next
    case 4 then show ?thesis using decode_quot [of ys] by simp
  next
    case 5 then show ?thesis using decode_apos [of ys] by simp
  next
    case 6 then show ?thesis using decode_other [of c ys] by simp
  qed
qed

lemma decode_escaped:
  "decode_entities (concat (map escape_char v) @ ys) = v @ decode_entities ys"
proof (induction v)
  case Nil
  show ?case by simp
next
  case (Cons c v)
  have "decode_entities (concat (map escape_char (c # v)) @ ys) =
        decode_entities (escape_char c @ (concat (map escape_char v) @ ys))"
    by (simp only: list.map concat.simps append_assoc)
  also have "\<dots> = c # decode_entities (concat (map escape_char v) @ ys)"
    by (rule decode_escape_char)
  finally show ?case using Cons.IH by simp
qed

text \<open>
  C6. For every value, whatever mixture of \<open>&\<close>, \<open><\<close>, \<open>>\<close>, \<open>"\<close>, \<open>'\<close> and other characters it
  holds, decoding the five entities in the text that the engine's escaping produces gives
  the value back.
\<close>

theorem escapeXml_roundtrip: "decode_entities (escapeXml v) = v"
  using decode_escaped [of v "[]"] by (simp add: escapeXml_charwise)

text \<open>
  C9. When the mapping gives a key the empty string as its column name, the placeholder
  stays in the output as it is, whatever the row holds, also a field named by the empty
  string.
\<close>

theorem empty_column_name_unmapped:
  assumes "lazy_capture captured" and "\<not> has_pair CHR ''{'' (pre @ ''{'')"
    and "map_of (own m) (trim captured) = Some (Some [])"
  shows "substitute m r (pre @ ''{{'' @ captured @ ''}}'' @ post) =
           prepend (pre @ ''{{'' @ captured @ ''}}'') (substitute m r post)"
proof -
  from assms(3) have "obj_get m (trim captured) = Own (Some [])"
    by (simp add: obj_get_def)
  then have "replacer m r tok captured = Inr tok" for tok
    by (simp add: replacer_def)
  with substitute_token [OF assms(1), of m r post]
  have "substitute m r (''{{'' @ captured @ ''}}'' @ post) =
          prepend (''{{'' @ captured @ ''}}'') (substitute m r post)"
    by simp
  with substitute_literal [OF assms(2), of m r "''{{'' @ captured @ ''}}'' @ post"]
  show ?thesis by (simp add: prepend_prepend)
qed

theorem empty_column_name_unmapped_witness:
  "lazy_capture ''KEY'' \<and> \<not> has_pair CHR ''{'' (''a'' @ ''{'') \<and>
   map_of (own (plain [(''KEY'', Some [])])) (trim ''KEY'') = Some (Some []) \<and>
   map_of (own (plain [([], ''value'')])) [] = Some ''value'' \<and>
   substitute (plain [(''KEY'', Some [])]) (plain [([], ''value'')]) ''a{{KEY}}'' =
     Inr ''a{{KEY}}''"
proof -
  have c: "lazy_capture ''KEY''"
    by (simp add: lazy_capture_def is_line_terminator_def)
  have p: "\<not> has_pair CHR ''{'' (''a'' @ ''{'')"
    by simp
  have k: "map_of (own (plain [(''KEY'', Some [])])) (trim ''KEY'') = Some (Some [])"
    by (simp add: trim_def is_white_space_def plain_def)
  from empty_column_name_unmapped [OF c p k, of "plain [([], ''value'')]" "[]"]
  show ?thesis using c p k
    by (simp add: substitute_Nil plain_def)
qed

section \<open>Extraction from a template without the first slide\<close>

text \<open>
  C7. When the archive holds no part \<open>ppt/slides/slide1.xml\<close>, \<open>extractKeysFromPPTX\<close> returns
  the empty list: the error thrown at line 29 is caught at line 45.
\<close>

theorem extractKeys_missing_slide:
  "map_of archive ''ppt/slides/slide1.xml'' = None \<Longrightarrow> extractKeysFromPPTX (Package archive) = []"
  by (simp add: extractKeysFromPPTX_def extractKeys_try_def)

theorem extractKeys_missing_slide_witness:
  "map_of [(''ppt/slides/slide2.xml'', ''{{A}}'')] ''ppt/slides/slide1.xml'' = None \<and>
   extractKeysFromPPTX (Package [(''ppt/slides/slide2.xml'', ''{{A}}'')]) = []"
  using extractKeys_missing_slide [of "[(''ppt/slides/slide2.xml'', ''{{A}}'')]"]
  by simp

section \<open>The batch loop\<close>

lemma batch_loop_resolved:
  "batch_loop template m n i data st = Inr b \<Longrightarrow>
   \<exists>blobs. list_all2 (produced template m) data blobs \<and>
     masterZip b =
       foldl (\<lambda>z kv. assign (fst kv) (snd kv) z) (masterZip st)
         (zip (map (\<lambda>ir. fileName (fst ir) (snd ir)) (enumerate i data)) blobs) \<and>
     events b = events st @ concat (map (row_events n) (zip (enumerate i data) blobs))"
proof (induction data arbitrary: i st)
  case Nil
  then show ?case by simp
next
  case (Cons row data)
  from Cons.prems obtain archive where a: "loadAsync template = Inr archive"
    by (cases "loadAsync template") auto
  with Cons.prems obtain blob where g: "generate_pptx m row archive = Inr blob"
    by (cases "generate_pptx m row archive") auto
  define st' where "st' = st\<lparr>masterZip := assign (fileName i row) blob (masterZip st),
      events := events st @ [MasterZipFile (fileName i row) blob, OnProgress (i + 1) n]\<rparr>"
  from Cons.prems a g have "batch_loop template m n (Suc i) data st' = Inr b"
    by (simp add: st'_def Let_def)
  from Cons.IH [OF this] obtain blobs where
    p: "list_all2 (produced template m) data blobs" and
    z: "masterZip b =
          foldl (\<lambda>z kv. assign (fst kv) (snd kv) z) (masterZip st')
            (zip (map (\<lambda>ir. fileName (fst ir) (snd ir)) (enumerate (Suc i) data)) blobs)" and
    e: "events b = events st' @ concat (map (row_events n) (zip (enumerate (Suc i) data) blobs))"
    by blast
  from a g have "produced template m row blob" by (simp add: produced_def)
  with p have "list_all2 (produced template m) (row # data) (blob # blobs)" by simp
  moreover from z have "masterZip b =
       foldl (\<lambda>z kv. assign (fst kv) (snd kv) z) (masterZip st)
         (zip (map (\<lambda>ir. fileName (fst ir) (snd ir)) (enumerate i (row # data))) (blob # blobs))"
    by (simp add: st'_def)
  moreover from e have "events b =
      events st @ concat (map (row_events n) (zip (enumerate i (row # data)) (blob # blobs)))"
    by (simp add: st'_def row_events_def)
  ultimately show ?case by blast
qed

lemma progress_calls_rows:
  "length blobs = length data \<Longrightarrow>
   progress_calls (concat (map (row_events n) (zip (enumerate i data) blobs))) =
     map (\<lambda>k. (k, n)) [Suc i ..< Suc i + length data]"
proof (induction data arbitrary: i blobs)
  case Nil
  show ?case by simp
next
  case (Cons row data)
  from Cons.prems obtain blob blobs' where b: "blobs = blob # blobs'" "length blobs' = length data"
    by (cases blobs) auto
  have "[Suc i ..< Suc i + length (row # data)] = Suc i # [Suc (Suc i) ..< Suc (Suc i) + length data]"
    by (simp add: upt_rec)
  with Cons.IH [OF b(2), of "Suc i"] b(1) show ?case
    by (simp add: row_events_def)
qed

text \<open>
  C4, as amended. In a batch of N rows that runs to its end, the calls made are, row by row
  in input order, the call that adds the row's produced archive to the outer archive
  followed by \<open>onProgress(i + 1, N)\<close>. So the progress callback is called exactly N times,
  with the first arguments 1, ..., N in this order, each time directly after the archive of
  that row has been produced and added.
\<close>

theorem onProgress_once_per_row:
  assumes "generateBatch template data m = Inr b"
  shows "progress_calls (events b) = map (\<lambda>k. (k, length data)) [1 ..< Suc (length data)] \<and>
         (\<exists>blobs. list_all2 (produced template m) data blobs \<and>
            events b = concat (map (row_events (length data)) (zip (enumerate 0 data) blobs)))"
proof -
  from assms have "batch_loop template m (length data) 0 data \<lparr>masterZip = [], events = []\<rparr> = Inr b"
    by (simp add: generateBatch_def)
  from batch_loop_resolved [OF this] obtain blobs where
    p: "list_all2 (produced template m) data blobs" and
    e: "events b = concat (map (row_events (length data)) (zip (enumerate 0 data) blobs))"
    by auto
  from p have "length blobs = length data" by (simp add: list_all2_lengthD)
  from progress_calls_rows [OF this, of "length data" 0] e p show ?thesis by auto
qed

theorem onProgress_once_per_row_witness:
  "generateBatch (Package [(''ppt/slides/slide1.xml'', ''Hi {{NAME}}'')])
      [plain [(''Name'', ''Ana'')], plain [(''Name'', ''Rui'')]] (plain [(''NAME'', Some ''Name'')]) =
     Inr \<lparr>masterZip =
            [(''slide_1_Ana.pptx'', [(''ppt/slides/slide1.xml'', ''Hi Ana'')]),
             (''slide_2_Rui.pptx'', [(''ppt/slides/slide1.xml'', ''Hi Rui'')])],
          events =
            [MasterZipFile ''slide_1_Ana.pptx'' [(''ppt/slides/slide1.xml'', ''Hi Ana'')],
             OnProgress 1 2,
             MasterZipFile ''slide_2_Rui.pptx'' [(''ppt/slides/slide1.xml'', ''Hi Rui'')],
             OnProgress 2 2]\<rparr> \<and>
   progress_calls
     [MasterZipFile ''slide_1_Ana.pptx'' [(''ppt/slides/slide1.xml'', ''Hi Ana'')],
      OnProgress 1 2,
      MasterZipFile ''slide_2_Rui.pptx'' [(''ppt/slides/slide1.xml'', ''Hi Rui'')],
      OnProgress 2 2] = [(1, 2), (2, 2)]"
proof -
  have g: "generateBatch (Package [(''ppt/slides/slide1.xml'', ''Hi {{NAME}}'')])
      [plain [(''Name'', ''Ana'')], plain [(''Name'', ''Rui'')]] (plain [(''NAME'', Some ''Name'')]) =
     Inr \<lparr>masterZip =
            [(''slide_1_Ana.pptx'', [(''ppt/slides/slide1.xml'', ''Hi Ana'')]),
             (''slide_2_Rui.pptx'', [(''ppt/slides/slide1.xml'', ''Hi Rui'')])],
          events =
            [MasterZipFile ''slide_1_Ana.pptx'' [(''ppt/slides/slide1.xml'', ''Hi Ana'')],
             OnProgress 1 2,
             MasterZipFile ''slide_2_Rui.pptx'' [(''ppt/slides/slide1.xml'', ''Hi Rui'')],
             OnProgress 2 2]\<rparr>"
    by (simp add: generateBatch_def generate_pptx_def startsWith_def endsWith_def fileName_def
        sanitize_def string_of_nat.simps substitute_def string_replace_def regex_exec_def
        is_line_terminator_def replacer_def trim_def is_white_space_def escapeXml_def Let_def
        plain_def obj_get_def)
  from onProgress_once_per_row [OF g] g show ?thesis
    by (simp del: progress_calls.simps add: upt_rec numeral_2_eq_2)
qed

text \<open>
  Not every batch runs to its end: with a template that does not decode, a batch of one row
  is rejected before any call of the callback.
\<close>

theorem corrupt_template_counterexample:
  "generateBatch Corrupt [plain [(''Name'', ''Ana'')]] (plain [(''NAME'', Some ''Name'')]) =
     Inl (ZipError, \<lparr>masterZip = [], events = []\<rparr>)"
  by (simp add: generateBatch_def)

section \<open>File names\<close>

lemma digit_in: "k < 10 \<Longrightarrow> ''0123456789'' ! k \<in> set ''0123456789''"
  by (rule nth_mem) simp

lemma digit_inj:
  assumes "a < 10" "b < 10" "''0123456789'' ! a = ''0123456789'' ! b"
  shows "a = b"
proof -
  have "distinct ''0123456789''" by simp
  with assms show ?thesis by (simp add: nth_eq_iff_index_eq)
qed

lemma string_of_nat_digits: "set (string_of_nat n) \<subseteq> set ''0123456789''"
proof (induction n rule: string_of_nat.induct)
  case (1 n)
  show ?case
  proof (cases "n < 10")
    case True
    then have "string_of_nat n = [''0123456789'' ! n]" by (simp add: string_of_nat.simps)
    with digit_in [OF True] show ?thesis by simp
  next
    case False
    then have eq: "string_of_nat n = string_of_nat (n div 10) @ [''0123456789'' ! (n mod 10)]"
      by (simp add: string_of_nat.simps)
    have "n mod 10 < 10" by simp
    from digit_in [OF this] "1.IH" [OF False] eq show ?thesis by simp
  qed
qed

lemma string_of_nat_not_Nil: "string_of_nat n \<noteq> []"
  by (subst string_of_nat.simps) simp

lemma string_of_nat_inj: "string_of_nat a = string_of_nat b \<Longrightarrow> a = b"
proof (induction a arbitrary: b rule: string_of_nat.induct)
  case (1 a)
  show ?case
  proof (cases "a < 10")
    case a: True
    then have sa: "string_of_nat a = [''0123456789'' ! a]" by (simp add: string_of_nat.simps)
    show ?thesis
    proof (cases "b < 10")
      case True
      then have "string_of_nat b = [''0123456789'' ! b]" by (simp add: string_of_nat.simps)
      with sa "1.prems" a True show ?thesis by (auto intro: digit_inj)
    next
      case False
      then have "string_of_nat b = string_of_nat (b div 10) @ [''0123456789'' ! (b mod 10)]"
        by (simp add: string_of_nat.simps)
      with sa "1.prems" string_of_nat_not_Nil [of "b div 10"] show ?thesis by simp
    qed
  next
    case a: False
    then have sa: "string_of_nat a = string_of_nat (a div 10) @ [''0123456789'' ! (a mod 10)]"
      by (simp add: string_of_nat.simps)
    show ?thesis
    proof (cases "b < 10")
      case True
      then have "string_of_nat b = [''0123456789'' ! b]" by (simp add: string_of_nat.simps)
      with sa "1.prems" string_of_nat_not_Nil [of "a div 10"] show ?thesis by simp
    next
      case False
      then have "string_of_nat b = string_of_nat (b div 10) @ [''0123456789'' ! (b mod 10)]"
        by (simp add: string_of_nat.simps)
      with sa "1.prems" have d: "string_of_nat (a div 10) = string_of_nat (b div 10)"
        and m: "''0123456789'' ! (a mod 10) = ''0123456789'' ! (b mod 10)"
        by simp_all
      from "1.IH" [OF a d] have "a div 10 = b div 10" .
      moreover from m have "a mod 10 = b mod 10" by (intro digit_inj) simp_all
      ultimately show ?thesis by (metis div_mult_mod_eq)
    qed
  qed
qed

lemma split_at_underscore:
  "CHR ''_'' \<notin> set a \<Longrightarrow> CHR ''_'' \<notin> set b \<Longrightarrow> a @ CHR ''_'' # x = b @ CHR ''_'' # y \<Longrightarrow> a = b"
proof (induction a arbitrary: b)
  case Nil
  then show ?case by (cases b) auto
next
  case (Cons c a)
  then show ?case by (cases b) auto
qed

lemma string_of_nat_no_underscore: "CHR ''_'' \<notin> set (string_of_nat n)"
  using string_of_nat_digits [of n] by auto

lemma fileName_inj: "fileName i row = fileName j row' \<Longrightarrow> i = j"
proof -
  define tail :: "CsvRow \<Rightarrow> string" where
    "tail rw = (case map snd (own rw) of
                  [] \<Rightarrow> ''generated''
                | v # _ \<Rightarrow> if sanitize v \<noteq> [] then sanitize v else ''generated'') @ ''.pptx''" for rw
  have name: "fileName k rw = ''slide_'' @ string_of_nat (k + 1) @ CHR ''_'' # tail rw" for k rw
    by (simp add: fileName_def tail_def)
  assume "fileName i row = fileName j row'"
  then have "string_of_nat (i + 1) @ CHR ''_'' # tail row = string_of_nat (j + 1) @ CHR ''_'' # tail row'"
    by (simp only: name same_append_eq)
  then have "string_of_nat (i + 1) = string_of_nat (j + 1)"
    by (rule split_at_underscore [OF string_of_nat_no_underscore string_of_nat_no_underscore])
  then show "i = j" using string_of_nat_inj [of "i + 1" "j + 1"] by simp
qed

lemma assign_fresh: "name \<notin> fst ` set z \<Longrightarrow> assign name d z = z @ [(name, d)]"
  by (induction z) auto

lemma foldl_assign_fresh:
  "distinct (map fst kvs) \<Longrightarrow> fst ` set kvs \<inter> fst ` set z = {} \<Longrightarrow>
   foldl (\<lambda>z kv. assign (fst kv) (snd kv) z) z kvs = z @ kvs"
proof (induction kvs arbitrary: z)
  case Nil
  show ?case by simp
next
  case (Cons kv kvs)
  from Cons.prems have fresh: "fst kv \<notin> fst ` set z" by auto
  from Cons.prems have "fst ` set kvs \<inter> fst ` set (z @ [kv]) = {}" by auto
  with Cons.prems Cons.IH [of "z @ [kv]"] fresh show ?case
    by (simp add: assign_fresh)
qed

lemma file_names_distinct: "distinct (map (\<lambda>ir. fileName (fst ir) (snd ir)) (enumerate i data))"
proof -
  have "inj_on (\<lambda>ir. fileName (fst ir) (snd ir)) (set (enumerate i data))"
  proof (rule inj_onI)
    fix x y assume x: "x \<in> set (enumerate i data)" and y: "y \<in> set (enumerate i data)"
      and eq: "fileName (fst x) (snd x) = fileName (fst y) (snd y)"
    from eq have "fst x = fst y" by (rule fileName_inj)
    moreover from x have "data ! (fst x - i) = snd x" by (simp add: in_set_enumerate_eq)
    moreover from y have "data ! (fst y - i) = snd y" by (simp add: in_set_enumerate_eq)
    ultimately show "x = y" by (simp add: prod_eq_iff)
  qed
  moreover have "distinct (enumerate i data)" by (simp add: distinct_enumerate)
  ultimately show ?thesis by (simp add: distinct_map)
qed

text \<open>
  C8, as amended. The file name of a row begins with its 1-based index, so the file names
  of the rows of a batch are pairwise different, whatever the first-column values are. In a
  batch that runs to its end the outer archive holds exactly one entry for each row, in row
  order, under these names, each with the archive produced for its row: no entry is
  overwritten.
\<close>

theorem one_entry_per_row:
  "distinct (file_names data) \<and>
   (generateBatch template data m = Inr b \<longrightarrow>
      (\<exists>blobs. list_all2 (produced template m) data blobs \<and>
         masterZip b = zip (file_names data) blobs))"
proof (intro conjI impI)
  show "distinct (file_names data)"
    by (simp only: file_names_def file_names_distinct)
next
  assume "generateBatch template data m = Inr b"
  then have "batch_loop template m (length data) 0 data \<lparr>masterZip = [], events = []\<rparr> = Inr b"
    by (simp add: generateBatch_def)
  from batch_loop_resolved [OF this] obtain blobs where
    p: "list_all2 (produced template m) data blobs" and
    z: "masterZip b =
          foldl (\<lambda>z kv. assign (fst kv) (snd kv) z) [] (zip (file_names data) blobs)"
    by (auto simp: file_names_def)
  from p have len: "length blobs = length data" by (simp add: list_all2_lengthD)
  then have "map fst (zip (file_names data) blobs) = file_names data"
    by (simp add: file_names_def)
  with file_names_distinct [of 0 data]
  have "distinct (map fst (zip (file_names data) blobs))"
    by (simp add: file_names_def)
  from foldl_assign_fresh [OF this, of "[]"] z
  have "masterZip b = zip (file_names data) blobs" by simp
  with p show "\<exists>blobs. list_all2 (produced template m) data blobs \<and>
         masterZip b = zip (file_names data) blobs" by blast
qed

theorem one_entry_per_row_witness:
  "distinct (file_names [plain [(''Name'', ''John Doe''), (''Age'', ''30'')],
                        plain [(''Name'', ''John Doe''), (''Age'', ''41'')]]) \<and>
   generateBatch (Package [(''ppt/slides/slide1.xml'', ''Hi {{NAME}}'')])
      [plain [(''Name'', ''John Doe''), (''Age'', ''30'')],
       plain [(''Name'', ''John Doe''), (''Age'', ''41'')]]
      (plain [(''NAME'', Some ''Age'')]) =
     Inr \<lparr>masterZip =
            [(''slide_1_John_Doe.pptx'', [(''ppt/slides/slide1.xml'', ''Hi 30'')]),
             (''slide_2_John_Doe.pptx'', [(''ppt/slides/slide1.xml'', ''Hi 41'')])],
          events =
            [MasterZipFile ''slide_1_John_Doe.pptx'' [(''ppt/slides/slide1.xml'', ''Hi 30'')],
             OnProgress 1 2,
             MasterZipFile ''slide_2_John_Doe.pptx'' [(''ppt/slides/slide1.xml'', ''Hi 41'')],
             OnProgress 2 2]\<rparr> \<and>
   (\<exists>blobs.
      [(''slide_1_John_Doe.pptx'', [(''ppt/slides/slide1.xml'', ''Hi 30'')]),
       (''slide_2_John_Doe.pptx'', [(''ppt/slides/slide1.xml'', ''Hi 41'')])] =
      zip (file_names [plain [(''Name'', ''John Doe''), (''Age'', ''30'')],
                       plain [(''Name'', ''John Doe''), (''Age'', ''41'')]]) blobs)"
proof -
  have g: "generateBatch (Package [(''ppt/slides/slide1.xml'', ''Hi {{NAME}}'')])
      [plain [(''Name'', ''John Doe''), (''Age'', ''30'')],
       plain [(''Name'', ''John Doe''), (''Age'', ''41'')]]
      (plain [(''NAME'', Some ''Age'')]) =
     Inr \<lparr>masterZip =
            [(''slide_1_John_Doe.pptx'', [(''ppt/slides/slide1.xml'', ''Hi 30'')]),
             (''slide_2_John_Doe.pptx'', [(''ppt/slides/slide1.xml'', ''Hi 41'')])],
          events =
            [MasterZipFile ''slide_1_John_Doe.pptx'' [(''ppt/slides/slide1.xml'', ''Hi 30'')],
             OnProgress 1 2,
             MasterZipFile ''slide_2_John_Doe.pptx'' [(''ppt/slides/slide1.xml'', ''Hi 41'')],
             OnProgress 2 2]\<rparr>"
    by (simp add: generateBatch_def generate_pptx_def startsWith_def endsWith_def fileName_def
        sanitize_def string_of_nat.simps substitute_def string_replace_def regex_exec_def
        is_line_terminator_def replacer_def trim_def is_white_space_def escapeXml_def Let_def
        plain_def obj_get_def)
  note t = one_entry_per_row [of "[plain [(''Name'', ''John Doe''), (''Age'', ''30'')],
       plain [(''Name'', ''John Doe''), (''Age'', ''41'')]]"
      "Package [(''ppt/slides/slide1.xml'', ''Hi {{NAME}}'')]" "plain [(''NAME'', Some ''Age'')]"]
  from t have d: "distinct (file_names [plain [(''Name'', ''John Doe''), (''Age'', ''30'')],
                        plain [(''Name'', ''John Doe''), (''Age'', ''41'')]])"
    by (rule conjunct1)
  from t [THEN conjunct2, THEN mp, OF g] have "\<exists>blobs.
      [(''slide_1_John_Doe.pptx'', [(''ppt/slides/slide1.xml'', ''Hi 30'')]),
       (''slide_2_John_Doe.pptx'', [(''ppt/slides/slide1.xml'', ''Hi 41'')])] =
      zip (file_names [plain [(''Name'', ''John Doe''), (''Age'', ''30'')],
                       plain [(''Name'', ''John Doe''), (''Age'', ''41'')]]) blobs"
    by auto
  with d g show ?thesis by (simp only: simp_thms)
qed

text \<open>
  Two rows whose first-column values are both \<open>John Doe\<close> give two entries,
  \<open>slide_1_John_Doe.pptx\<close> and \<open>slide_2_John_Doe.pptx\<close>, not one.
\<close>

theorem colliding_rows_counterexample:
  "generateBatch (Package [])
     [plain [(''Name'', ''John Doe'')], plain [(''Name'', ''John Doe'')]] (plain []) =
   Inr \<lparr>masterZip = [(''slide_1_John_Doe.pptx'', []), (''slide_2_John_Doe.pptx'', [])],
        events = [MasterZipFile ''slide_1_John_Doe.pptx'' [], OnProgress 1 2,
                  MasterZipFile ''slide_2_John_Doe.pptx'' [], OnProgress 2 2]\<rparr>"
  by (simp add: generateBatch_def generate_pptx_def fileName_def sanitize_def
      string_of_nat.simps Let_def plain_def)

section \<open>Automatic matching\<close>

lemma map_of_assign: "map_of (assign k v m) k' = (if k' = k then Some v else map_of m k')"
  by (induction m) auto

lemma map_of_set_mapping:
  "key \<noteq> ''__proto__'' \<Longrightarrow>
   map_of (own (set_mapping k v obj)) key = (if key = k then Some v else map_of (own obj) key)"
  by (auto simp: set_mapping_def map_of_assign split: option.splits)

lemma map_of_foldl_set_mapping:
  "key \<noteq> ''__proto__'' \<Longrightarrow>
   map_of (own (foldl (\<lambda>m k. set_mapping k (f k) m) m0 ks)) key =
     (if key \<in> set ks then Some (f key) else map_of (own m0) key)"
  by (induction ks arbitrary: m0) (auto simp: map_of_set_mapping)

text \<open>
  C5, as amended. For a trimmed key (as extraction yields them) other than \<open>__proto__\<close> among
  the template keys, and any sequence of column names, the automatic matching gives the key
  the first column whose trimmed, lower-cased name equals the lower-cased key, unless that
  column is the empty string: then, and when no column matches, it gives \<open>null\<close>. It gives
  nothing to a key that is not among the template keys. The comparison is on whole names:
  of the columns \<open>Name2\<close>, \<open>Name \<close>, \<open>NAME\<close> the key \<open>name\<close> is given \<open>Name \<close>.
\<close>

theorem auto_match_first_column:
  assumes "trim key = key" and "key \<noteq> ''__proto__''"
  shows "map_of (own (auto_match keys columns)) key =
           (if key \<in> set keys
            then Some (case find (\<lambda>h. toLowerCase (trim h) = toLowerCase (trim key)) columns of
                         Some h \<Rightarrow> if h = [] then None else Some h
                       | None \<Rightarrow> None)
            else None)"
proof -
  have "auto_match keys columns =
          foldl (\<lambda>m k. set_mapping k
                   (case find (\<lambda>h. toLowerCase (trim h) = toLowerCase k) columns of
                      Some h \<Rightarrow> if h \<noteq> [] then Some h else None
                    | None \<Rightarrow> None) m) (plain []) keys"
    by (simp add: auto_match_def Let_def)
  then show ?thesis
    using assms by (simp add: map_of_foldl_set_mapping plain_def split: option.splits)
qed

theorem auto_match_first_column_witness:
  "trim ''name'' = ''name'' \<and> ''name'' \<noteq> ''__proto__'' \<and>
   map_of (own (auto_match [''name'', ''CITY'', ''zip''] [''Name2'', ''Name '', ''NAME'', ''City'']))
     ''name'' = Some (Some ''Name '')"
  using auto_match_first_column [of "''name''" "[''name'', ''CITY'', ''zip'']"
      "[''Name2'', ''Name '', ''NAME'', ''City'']"]
  by (simp add: trim_def is_white_space_def toLowerCase_def toLowerCase_char_def char_of_def
      bit_Suc_0_iff)

text \<open>
  The empty key (from a placeholder \<open>{{}}\<close>) and two columns, the empty name and \<open>A\<close>:
  the first column matches, and the key is given \<open>null\<close>.
\<close>

theorem auto_match_empty_column_counterexample:
  "find (\<lambda>h. toLowerCase (trim h) = toLowerCase (trim [])) [[], ''A''] = Some [] \<and>
   map_of (own (auto_match [[]] [[], ''A''])) [] = Some None"
  by (simp add: auto_match_def trim_def toLowerCase_def set_mapping_def plain_def)

text \<open>
  The key \<open>__proto__\<close> is outside the theorem: with no matching column the assignment of
  \<open>null\<close> makes no entry and takes the prototype from the mapping.
\<close>

lemma auto_match_proto_key: "auto_match [''__proto__''] [''A''] = \<lparr>own = [], proto = False\<rparr>"
  by (simp add: auto_match_def trim_def is_white_space_def toLowerCase_def toLowerCase_char_def
      char_of_def bit_Suc_0_iff set_mapping_def plain_def)

section \<open>An empty data source\<close>

text \<open>
  C3, as amended. When the parsed CSV has no rows, \<open>analyzeFiles\<close> fails: the error thrown
  at line 38 is caught, the error message is set, and rows, preview and mapping stay as they
  were. While the stored rows are empty \<open>handleGenerate\<close> returns at once and leaves the
  state, so no archive, as it was. \<open>generateBatch\<close> itself has no such guard: with no rows
  it does not fail, makes no progress call and returns an empty outer archive.
\<close>

theorem zero_rows:
  "(templateFile st = Some template \<and> csvFile st = Some (Csv []) \<longrightarrow>
      analyzeFiles st = st\<lparr>error := Some AnalyzeFailed\<rparr>) \<and>
   (csvData st = [] \<longrightarrow> handleGenerate confirm st = st) \<and>
   generateBatch template [] m = Inr \<lparr>masterZip = [], events = []\<rparr>"
  by (simp add: analyzeFiles_def analyze_try_def handleGenerate_def generateBatch_def
      split: option.splits)

theorem zero_rows_witness:
  "templateFile (initial\<lparr>templateFile := Some (Package []), csvFile := Some (Csv [])\<rparr>) =
     Some (Package []) \<and>
   csvFile (initial\<lparr>templateFile := Some (Package []), csvFile := Some (Csv [])\<rparr>) =
     Some (Csv []) \<and>
   csvData (initial\<lparr>templateFile := Some (Package []), csvFile := Some (Csv [])\<rparr>) = [] \<and>
   analyzeFiles (initial\<lparr>templateFile := Some (Package []), csvFile := Some (Csv [])\<rparr>) =
     initial\<lparr>templateFile := Some (Package []), csvFile := Some (Csv []),
             error := Some AnalyzeFailed\<rparr> \<and>
   handleGenerate True (initial\<lparr>templateFile := Some (Package []), csvFile := Some (Csv [])\<rparr>) =
     initial\<lparr>templateFile := Some (Package []), csvFile := Some (Csv [])\<rparr> \<and>
   generateBatch (Package []) [] (plain []) = Inr \<lparr>masterZip = [], events = []\<rparr>"
  using zero_rows [of "initial\<lparr>templateFile := Some (Package []), csvFile := Some (Csv [])\<rparr>"
      "Package []" True "plain []"]
  by (simp add: initial_def)

text \<open>The engine called with no rows returns normally, with an empty outer archive.\<close>

theorem zero_rows_counterexample:
  "generateBatch (Package [(''ppt/slides/slide1.xml'', ''{{A}}'')]) [] (plain [(''A'', Some ''a'')]) =
     Inr \<lparr>masterZip = [], events = []\<rparr>"
  by (simp add: generateBatch_def)

section \<open>Placeholders across a line break\<close>

lemma lazy_group_line_break:
  "\<not> has_pair CHR ''}'' t \<Longrightarrow> is_line_terminator nl \<Longrightarrow> lazy_group (t @ nl # rest) = None"
proof (induction t)
  case Nil
  then show ?case by (cases rest) (auto simp: is_line_terminator_def)
next
  case (Cons c t)
  from Cons.prems have "\<not> closing ((c # t) @ nl # rest)"
    by (cases t) (auto simp: is_line_terminator_def)
  moreover from Cons.prems have "lazy_group (t @ nl # rest) = None"
    by (intro Cons.IH) (auto dest: has_pair_Cons)
  ultimately show ?case by simp
qed

lemma regex_exec_line_break:
  "\<not> has_pair CHR ''}'' t \<Longrightarrow> is_line_terminator nl \<Longrightarrow> regex_exec (t @ nl # rest) = None"
proof (cases t)
  case Nil
  assume "is_line_terminator nl"
  with Nil show ?thesis by (cases rest) (auto simp: regex_exec_def is_line_terminator_def)
next
  case (Cons a t')
  assume np: "\<not> has_pair CHR ''}'' t" and nl: "is_line_terminator nl"
  show ?thesis
  proof (cases t')
    case Nil
    with Cons nl show ?thesis by (auto simp: regex_exec_def is_line_terminator_def)
  next
    case (Cons b t'')
    with \<open>t = a # t'\<close> np have "\<not> has_pair CHR ''}'' t''"
      by (auto dest: has_pair_Cons)
    from lazy_group_line_break [OF this nl, of rest] Cons \<open>t = a # t'\<close>
    show ?thesis by (simp add: regex_exec_def)
  qed
qed

lemma regex_pieces_line_break:
  "\<not> has_pair CHR ''}'' t \<Longrightarrow> is_line_terminator nl \<Longrightarrow>
   regex_pieces (t @ nl # rest) = map Lit (t @ [nl]) @ regex_pieces rest"
proof (induction t)
  case Nil
  from regex_exec_line_break [OF Nil.prems, of rest] show ?case by simp
next
  case (Cons c t)
  from Cons.prems have t: "\<not> has_pair CHR ''}'' t" by (auto dest: has_pair_Cons)
  from regex_exec_line_break [OF Cons.prems, of rest] Cons.IH [OF t Cons.prems(2)]
  show ?case by simp
qed

lemma has_pair_append_close: "\<not> has_pair CHR ''{'' t \<Longrightarrow> \<not> has_pair CHR ''{'' (t @ ''}}{'')"
  by (induction "CHR ''{''" t rule: has_pair.induct) auto

lemma regex_pieces_unclosed:
  assumes "is_line_terminator nl" and "\<not> has_pair CHR ''}'' t1" and "\<not> has_pair CHR ''{'' t2"
  shows "regex_pieces (''{{'' @ t1 @ nl # t2 @ ''}}'' @ post) =
           map Lit (''{{'' @ t1 @ nl # t2 @ ''}}'') @ regex_pieces post"
proof -
  from assms(2) have "\<not> has_pair CHR ''}'' (''{{'' @ t1)" by (cases t1) auto
  from regex_pieces_line_break [OF this assms(1), of "t2 @ ''}}'' @ post"]
  have "regex_pieces (''{{'' @ t1 @ nl # t2 @ ''}}'' @ post) =
          map Lit (''{{'' @ t1 @ [nl]) @ regex_pieces ((t2 @ ''}}'') @ post)"
    by simp
  moreover from has_pair_append_close [OF assms(3)]
  have "regex_pieces ((t2 @ ''}}'') @ post) = map Lit (t2 @ ''}}'') @ regex_pieces post"
    by (intro regex_pieces_literal) simp
  ultimately show ?thesis by simp
qed

lemma lazy_group_before_unclosed:
  assumes "is_line_terminator nl" and "\<not> has_pair CHR ''}'' t1"
  shows "lazy_group (xs @ ''{{'' @ t1 @ nl # rest) =
           (case lazy_group xs of
              None \<Rightarrow> None
            | Some (k, r) \<Rightarrow> Some (k, r @ ''{{'' @ t1 @ nl # rest))"
proof (induction xs)
  case Nil
  from assms(2) have "\<not> has_pair CHR ''}'' (''{{'' @ t1)" by (cases t1) auto
  from lazy_group_line_break [OF this assms(1), of rest] show ?case by simp
next
  case (Cons c cs)
  have c: "closing ((c # cs) @ ''{{'' @ t1 @ nl # rest) = closing (c # cs)"
    by (cases cs) auto
  show ?case
  proof (cases "closing (c # cs)")
    case True
    then have "cs \<noteq> []" by auto
    with True c show ?thesis by simp
  next
    case False
    with c Cons.IH show ?thesis
      by (simp split: option.splits)
  qed
qed

lemma regex_exec_before_unclosed:
  assumes "is_line_terminator nl" and "\<not> has_pair CHR ''}'' t1"
  shows "regex_exec ((c # cs) @ ''{{'' @ t1 @ nl # rest) =
           (case regex_exec (c # cs) of
              None \<Rightarrow> None
            | Some (k, r) \<Rightarrow> Some (k, r @ ''{{'' @ t1 @ nl # rest))"
proof (cases cs)
  case Nil
  from assms(2) have "\<not> has_pair CHR ''}'' (''{'' @ t1)" by (cases t1) auto
  from lazy_group_line_break [OF this assms(1), of rest] Nil show ?thesis
    by (simp add: regex_exec_def)
next
  case (Cons d ds)
  with lazy_group_before_unclosed [OF assms, of ds rest] show ?thesis
    by (simp add: regex_exec_def)
qed

lemma regex_pieces_before_unclosed:
  assumes "is_line_terminator nl" and "\<not> has_pair CHR ''}'' t1"
  shows "regex_pieces (xs @ ''{{'' @ t1 @ nl # rest) =
           regex_pieces xs @ regex_pieces (''{{'' @ t1 @ nl # rest)"
proof (induction xs rule: regex_pieces.induct)
  case 1
  show ?case by simp
next
  case (2 c cs)
  show ?case
  proof (cases "regex_exec (c # cs)")
    case None
    with regex_exec_before_unclosed [OF assms, of c cs rest] "2.IH"(1) [OF None]
    show ?thesis by simp
  next
    case (Some a)
    then obtain k r where ex: "regex_exec (c # cs) = Some (k, r)" by (cases a) auto
    with regex_exec_before_unclosed [OF assms, of c cs rest] "2.IH"(2) [OF ex refl]
    show ?thesis by simp
  qed
qed

lemma regex_pieces_around_unclosed:
  assumes "is_line_terminator nl" and "\<not> has_pair CHR ''}'' t1" and "\<not> has_pair CHR ''{'' t2"
  shows "regex_pieces (pre @ ''{{'' @ t1 @ nl # t2 @ ''}}'' @ post) =
           regex_pieces pre @ map Lit (''{{'' @ t1 @ nl # t2 @ ''}}'') @ regex_pieces post"
  using regex_pieces_before_unclosed [OF assms(1,2), of pre "t2 @ ''}}'' @ post"]
    regex_pieces_unclosed [OF assms, of post]
  by simp

lemma replace_pieces_append:
  "replace_pieces f (ps @ qs) =
     (case replace_pieces f ps of Inl e \<Rightarrow> Inl e | Inr p \<Rightarrow> prepend p (replace_pieces f qs))"
proof (induction f ps rule: replace_pieces.induct)
  case (1 f)
  show ?case by (simp add: prepend_Nil)
next
  case (2 f c pieces)
  then show ?case
    by (cases "replace_pieces f pieces") (simp_all add: prepend_prepend)
next
  case (3 f m captured pieces)
  show ?case
  proof (cases "f m captured")
    case (Inl e)
    then show ?thesis by simp
  next
    case (Inr s)
    with "3.IH" [OF Inr] show ?thesis
      by (cases "replace_pieces f pieces") (simp_all add: prepend_prepend)
  qed
qed

lemma matched_literals: "concat (map (matched \<circ> Lit) xs) = []"
  by (induction xs) auto

lemma set_foldl_set_add: "set (foldl set_add acc xs) = set acc \<union> set xs"
  by (induction xs arbitrary: acc) (auto simp: set_add_def)

lemma set_array_from_set: "set (array_from_set xs) = set xs"
  by (simp add: array_from_set_def set_foldl_set_add)

lemma set_template_keys_matches:
  "set (template_keys s) =
     (\<lambda>tok. trim (strip_braces tok)) ` set (concat (map matched (regex_pieces s)))"
proof (cases "concat (map matched (regex_pieces s))")
  case Nil
  then show ?thesis
    by (simp only: template_keys_def string_match_def list.case option.case list.set
        image_empty)
next
  case (Cons tok toks)
  then show ?thesis
    by (simp only: template_keys_def string_match_def list.case option.case
        set_array_from_set set_map)
qed

text \<open>
  C10, as amended. Take a text \<open>{{...}}\<close> with a line terminator \<open>nl\<close> between the braces, no
  \<open>}}\<close> between the opening braces and \<open>nl\<close>, and no \<open>{{\<close> between \<open>nl\<close> and the closing braces.
  Wherever it stands in the text of a slide, it is neither substituted nor discovered:
  substitution copies it unchanged, between the substituted text before it and the
  substituted text behind it (and fails when one of these two fails), and the keys that
  extraction reports are exactly those reported for the text before it and those reported
  for the text behind it.
\<close>

theorem line_break_token_passes:
  assumes "is_line_terminator nl" and "\<not> has_pair CHR ''}'' t1" and "\<not> has_pair CHR ''{'' t2"
  shows "substitute m r (pre @ ''{{'' @ t1 @ nl # t2 @ ''}}'' @ post) =
           (case substitute m r pre of
              Inl e \<Rightarrow> Inl e
            | Inr before \<Rightarrow>
                prepend (before @ ''{{'' @ t1 @ nl # t2 @ ''}}'') (substitute m r post)) \<and>
         set (template_keys (pre @ ''{{'' @ t1 @ nl # t2 @ ''}}'' @ post)) =
           set (template_keys pre) \<union> set (template_keys post)"
proof
  show "substitute m r (pre @ ''{{'' @ t1 @ nl # t2 @ ''}}'' @ post) =
           (case substitute m r pre of
              Inl e \<Rightarrow> Inl e
            | Inr before \<Rightarrow>
                prepend (before @ ''{{'' @ t1 @ nl # t2 @ ''}}'') (substitute m r post))"
  proof -
    have "substitute m r (pre @ ''{{'' @ t1 @ nl # t2 @ ''}}'' @ post) =
            (case substitute m r pre of
               Inl e \<Rightarrow> Inl e
             | Inr before \<Rightarrow>
                 prepend before
                   (prepend (''{{'' @ t1 @ nl # t2 @ ''}}'') (substitute m r post)))"
      by (simp only: substitute_def string_replace_def regex_pieces_around_unclosed [OF assms]
          replace_pieces_append [of _ "regex_pieces pre"] replace_pieces_literals)
    then show ?thesis
      by (cases "substitute m r pre") (simp_all add: prepend_prepend)
  qed
  show "set (template_keys (pre @ ''{{'' @ t1 @ nl # t2 @ ''}}'' @ post)) =
           set (template_keys pre) \<union> set (template_keys post)"
  proof -
    have "concat (map matched (regex_pieces (pre @ ''{{'' @ t1 @ nl # t2 @ ''}}'' @ post))) =
            concat (map matched (regex_pieces pre)) @ concat (map matched (regex_pieces post))"
      by (simp only: regex_pieces_around_unclosed [OF assms] map_append concat_append map_map
          matched_literals append_Nil)
    then show ?thesis
      by (simp only: set_template_keys_matches set_append image_Un)
  qed
qed

theorem line_break_token_passes_witness:
  "is_line_terminator (CHR 0x0A) \<and> \<not> has_pair CHR ''}'' ''A'' \<and> \<not> has_pair CHR ''{'' ''B'' \<and>
   substitute (plain [(''N'', Some ''c''), (''A'', Some ''c''), (''B'', Some ''c'')])
       (plain [(''c'', ''v'')]) (''{{N}} {{A'' @ [CHR 0x0A] @ ''B}}'') =
     Inr (''v {{A'' @ [CHR 0x0A] @ ''B}}'') \<and>
   set (template_keys (''{{N}} {{A'' @ [CHR 0x0A] @ ''B}}'')) = {''N''}"
proof -
  have a: "is_line_terminator (CHR 0x0A)" by (simp add: is_line_terminator_def)
  have b: "\<not> has_pair CHR ''}'' ''A''" by simp
  have c: "\<not> has_pair CHR ''{'' ''B''" by simp
  have e: "template_keys [] = []" by (simp add: template_keys_def string_match_def)
  have n: "template_keys ''{{N}} '' = [''N'']"
    by (simp add: template_keys_def string_match_def regex_exec_def is_line_terminator_def
        trim_def is_white_space_def array_from_set_def set_add_def)
  have s: "substitute (plain [(''N'', Some ''c''), (''A'', Some ''c''), (''B'', Some ''c'')])
       (plain [(''c'', ''v'')]) ''{{N}} '' = Inr ''v ''"
    by (simp add: substitute_def string_replace_def regex_exec_def is_line_terminator_def
        replacer_def trim_def is_white_space_def escapeXml_def plain_def obj_get_def)
  from line_break_token_passes [OF a b c,
      of "plain [(''N'', Some ''c''), (''A'', Some ''c''), (''B'', Some ''c'')]"
      "plain [(''c'', ''v'')]" "''{{N}} ''" "[]"]
  show ?thesis using a b c
    by (simp add: e n s substitute_Nil)
qed

text \<open>
  With \<open>{{\<close> after the line break the claim fails: in \<open>{{A\<close>, line feed, \<open>{{B}}\<close> the text
  between the outer braces holds a line feed, and yet \<open>{{B}}\<close> inside it is substituted and
  the key \<open>B\<close> is reported.
\<close>

theorem line_break_token_counterexample:
  "substitute (plain [(''B'', Some ''c'')]) (plain [(''c'', ''v'')])
       (''{{A'' @ [CHR 0x0A] @ ''{{B}}'') =
     Inr (''{{A'' @ [CHR 0x0A] @ ''v'') \<and>
   template_keys (''{{A'' @ [CHR 0x0A] @ ''{{B}}'') = [''B'']"
  by (simp add: substitute_def string_replace_def regex_exec_def is_line_terminator_def
      replacer_def trim_def is_white_space_def escapeXml_def template_keys_def string_match_def
      array_from_set_def set_add_def plain_def obj_get_def)

section \<open>Extraction after substitution\<close>

lemma prepend_Inr: "prepend s res = Inr out \<Longrightarrow> \<exists>t. res = Inr t \<and> out = s @ t"
  by (cases res) auto

lemma substitute_Cons:
  "substitute m r (c # cs) =
     (case regex_exec (c # cs) of
        Some (k, rest) \<Rightarrow>
          (case replacer m r (''{{'' @ k @ ''}}'') k of
             Inl e \<Rightarrow> Inl e
           | Inr s \<Rightarrow> prepend s (substitute m r rest))
      | None \<Rightarrow> prepend [c] (substitute m r cs))"
  by (simp add: substitute_def string_replace_def split: option.splits sum.splits)

lemma substitute_Cons_literal:
  assumes "regex_exec (c # cs) = None" and "substitute m r (c # cs) = Inr out"
  shows "\<exists>t. substitute m r cs = Inr t \<and> out = c # t"
proof -
  from assms have "prepend [c] (substitute m r cs) = Inr out"
    by (simp add: substitute_Cons)
  from prepend_Inr [OF this] show ?thesis by simp
qed

lemma regex_exec_lazy_group:
  assumes "regex_exec xs = Some (k, rest)"
  shows "lazy_group xs \<noteq> None"
proof -
  from regex_exec_sound [OF assms] have k: "lazy_capture k" and xs: "xs = ''{{'' @ k @ ''}}'' @ rest"
    by simp_all
  from k have "lazy_capture (''{{'' @ k)"
    by (cases k) (auto simp: lazy_capture_def is_line_terminator_def)
  from lazy_group_capture [OF this, of rest] xs show ?thesis by simp
qed

lemma lazy_group_no_match: "lazy_group xs = None \<Longrightarrow> regex_exec xs = None"
  using regex_exec_lazy_group [of xs] by (cases "regex_exec xs") auto

lemma lazy_group_substitute:
  "lazy_group xs = None \<Longrightarrow> substitute m r xs = Inr out \<Longrightarrow> lazy_group out = None"
proof (induction xs arbitrary: out)
  case Nil
  then show ?case by (simp add: substitute_Nil)
next
  case (Cons c cs)
  from Cons.prems(1) have ne: "regex_exec (c # cs) = None"
    by (rule lazy_group_no_match)
  from substitute_Cons_literal [OF ne Cons.prems(2)]
  obtain t where t: "substitute m r cs = Inr t" and out: "out = c # t" by blast
  from Cons.prems(1) have nc: "\<not> closing (c # cs)"
    by (auto split: if_splits)
  show ?case
  proof (cases "is_line_terminator c")
    case True
    then have "\<not> closing (c # t)"
      by (cases t) (auto simp: is_line_terminator_def)
    with True out show ?thesis by simp
  next
    case False
    with Cons.prems(1) nc have cs: "lazy_group cs = None"
      by (auto split: if_splits option.splits)
    have "\<not> closing (c # t)"
    proof (cases cs)
      case Nil
      with t show ?thesis by (simp add: substitute_Nil)
    next
      case (Cons d ds)
      from cs have "regex_exec cs = None" by (rule lazy_group_no_match)
      with Cons t obtain t' where "t = d # t'"
        using substitute_Cons_literal [of d ds m r t] by auto
      with nc Cons show ?thesis by simp
    qed
    with False Cons.IH [OF cs t] out show ?thesis by simp
  qed
qed

lemma regex_exec_substitute:
  assumes "regex_exec (c # cs) = None" and "substitute m r cs = Inr t"
  shows "regex_exec (c # t) = None"
proof (cases cs)
  case Nil
  with assms(2) show ?thesis by (simp add: substitute_Nil regex_exec_def)
next
  case (Cons d ds)
  show ?thesis
  proof (cases "c = CHR ''{'' \<and> d = CHR ''{''")
    case True
    with assms(1) Cons have lg: "lazy_group ds = None"
      by (simp add: regex_exec_def)
    with True have "lazy_group (d # ds) = None"
      by (cases ds) (auto simp: is_line_terminator_def)
    then have "regex_exec (d # ds) = None" by (rule lazy_group_no_match)
    with Cons assms(2) obtain t' where t': "substitute m r ds = Inr t'" "t = d # t'"
      using substitute_Cons_literal [of d ds m r t] by auto
    from lazy_group_substitute [OF lg t'(1)] True t'(2) show ?thesis
      by (simp add: regex_exec_def)
  next
    case False
    show ?thesis
    proof (cases "c = CHR ''{''")
      case True
      with False have d: "d \<noteq> CHR ''{''" by simp
      then have "regex_exec (d # ds) = None"
        by (cases ds) (auto simp: regex_exec_def)
      with Cons assms(2) obtain t' where "t = d # t'"
        using substitute_Cons_literal [of d ds m r t] by auto
      with d show ?thesis by (simp add: regex_exec_def)
    next
      case False
      then show ?thesis
        by (cases t rule: closing.cases) (auto simp: regex_exec_def)
    qed
  qed
qed

lemma captures_Nil: "captures [] = []"
  by (simp add: captures_def)

lemma captures_Cons:
  "captures (c # cs) =
     (case regex_exec (c # cs) of Some (k, rest) \<Rightarrow> k # captures rest | None \<Rightarrow> captures cs)"
  by (simp add: captures_def split: option.splits)

lemma captures_literal:
  "\<not> has_pair CHR ''{'' (pre @ ''{'') \<Longrightarrow> captures (pre @ ys) = captures ys"
proof -
  have "concat (map (captured_group \<circ> Lit) xs) = []" for xs
    by (induction xs) auto
  moreover assume "\<not> has_pair CHR ''{'' (pre @ ''{'')"
  ultimately show ?thesis
    by (simp add: captures_def regex_pieces_literal)
qed

lemma captures_token:
  "lazy_capture k \<Longrightarrow> captures (''{{'' @ k @ ''}}'' @ post) = k # captures post"
  using regex_pieces_token [of k post] by (simp add: captures_def)

lemma no_brace_no_pair: "CHR ''{'' \<notin> set xs \<Longrightarrow> \<not> has_pair CHR ''{'' (xs @ ''{'')"
  by (induction "CHR ''{''" xs rule: has_pair.induct) auto

lemma escapeXml_no_brace: "CHR ''{'' \<notin> set v \<Longrightarrow> CHR ''{'' \<notin> set (escapeXml v)"
proof -
  have "CHR ''{'' \<notin> set (concat (map escape_char v))" if "CHR ''{'' \<notin> set v"
    using that by (induction v) auto
  then show "CHR ''{'' \<notin> set v \<Longrightarrow> CHR ''{'' \<notin> set (escapeXml v)"
    by (simp add: escapeXml_charwise)
qed

lemma captures_substitute:
  "list_all (\<lambda>k. own_lookups m r (trim k)) (captures T) \<Longrightarrow>
   list_all (\<lambda>k. case own_value m r (trim k) of Some v \<Rightarrow> CHR ''{'' \<notin> set v | None \<Rightarrow> True)
     (captures T) \<Longrightarrow>
   \<exists>out. substitute m r T = Inr out \<and>
     captures out = filter (\<lambda>k. \<not> mapped_and_present m r (trim k)) (captures T)"
proof (induction T rule: regex_pieces.induct)
  case 1
  show ?case by (simp add: substitute_Nil captures_Nil)
next
  case (2 c cs)
  show ?case
  proof (cases "regex_exec (c # cs)")
    case None
    with "2.prems" have "list_all (\<lambda>k. own_lookups m r (trim k)) (captures cs)"
      "list_all (\<lambda>k. case own_value m r (trim k) of Some v \<Rightarrow> CHR ''{'' \<notin> set v | None \<Rightarrow> True)
         (captures cs)"
      by (simp_all add: captures_Cons)
    from "2.IH"(1) [OF None this] obtain t where t: "substitute m r cs = Inr t"
      and ct: "captures t = filter (\<lambda>k. \<not> mapped_and_present m r (trim k)) (captures cs)"
      by blast
    from regex_exec_substitute [OF None t] have "captures (c # t) = captures t"
      by (simp add: captures_Cons)
    with None t ct show ?thesis
      by (simp add: substitute_Cons captures_Cons)
  next
    case (Some a)
    then obtain k rest where ex: "regex_exec (c # cs) = Some (k, rest)" by (cases a) auto
    with "2.prems" have look: "own_lookups m r (trim k)"
      and val: "case own_value m r (trim k) of Some v \<Rightarrow> CHR ''{'' \<notin> set v | None \<Rightarrow> True"
      and rest: "list_all (\<lambda>k. own_lookups m r (trim k)) (captures rest)"
      "list_all (\<lambda>k. case own_value m r (trim k) of Some v \<Rightarrow> CHR ''{'' \<notin> set v | None \<Rightarrow> True)
         (captures rest)"
      by (simp_all add: captures_Cons)
    from "2.IH"(2) [OF ex refl rest] obtain t where t: "substitute m r rest = Inr t"
      and ct: "captures t = filter (\<lambda>k. \<not> mapped_and_present m r (trim k)) (captures rest)"
      by blast
    from regex_exec_sound [OF ex] have k: "lazy_capture k" by simp
    note rep = replacer_own [OF look, of "''{{'' @ k @ ''}}''"]
    show ?thesis
    proof (cases "own_value m r (trim k)")
      case None
      with rep ex t have "substitute m r (c # cs) = Inr ((''{{'' @ k @ ''}}'') @ t)"
        by (simp add: substitute_Cons)
      moreover from captures_token [OF k, of t] ct None ex
      have "captures ((''{{'' @ k @ ''}}'') @ t) =
              filter (\<lambda>k. \<not> mapped_and_present m r (trim k)) (captures (c # cs))"
        by (simp add: captures_Cons mapped_and_present_def)
      ultimately show ?thesis by blast
    next
      case (Some v)
      with rep ex t have "substitute m r (c # cs) = Inr (escapeXml v @ t)"
        by (simp add: substitute_Cons)
      moreover from Some val have "\<not> has_pair CHR ''{'' (escapeXml v @ ''{'')"
        by (intro no_brace_no_pair escapeXml_no_brace) simp
      from captures_literal [OF this, of t] ct Some ex
      have "captures (escapeXml v @ t) =
              filter (\<lambda>k. \<not> mapped_and_present m r (trim k)) (captures (c # cs))"
        by (simp add: captures_Cons mapped_and_present_def)
      ultimately show ?thesis by blast
    qed
  qed
qed

lemma matches_captures:
  "concat (map matched (regex_pieces s)) = map (\<lambda>k. ''{{'' @ k @ ''}}'') (captures s)"
  by (induction s rule: regex_pieces.induct) (auto simp: captures_def split: option.splits)

lemma captures_lazy: "k \<in> set (captures s) \<Longrightarrow> lazy_capture k"
proof (induction s rule: regex_pieces.induct)
  case 1
  then show ?case by (simp add: captures_Nil)
next
  case (2 c cs)
  show ?case
  proof (cases "regex_exec (c # cs)")
    case None
    with "2.prems" "2.IH"(1) show ?thesis by (simp add: captures_Cons)
  next
    case (Some a)
    then obtain k' rest where ex: "regex_exec (c # cs) = Some (k', rest)" by (cases a) auto
    from regex_exec_sound [OF ex] have "lazy_capture k'" by simp
    with "2.prems" "2.IH"(2) [OF ex refl] ex show ?thesis by (auto simp: captures_Cons)
  qed
qed

lemma set_template_keys:
  "set (template_keys s) = (\<lambda>k. trim (strip_braces (''{{'' @ k @ ''}}''))) ` set (captures s)"
  by (simp only: set_template_keys_matches matches_captures set_map image_image)

lemma strip_braces_capture:
  "\<not> has_pair CHR ''}'' (k @ ''}'') \<Longrightarrow> \<not> has_pair CHR ''{'' k \<Longrightarrow> strip_braces (k @ ''}}'') = k"
proof (induction k rule: strip_braces.induct)
  case (1 a b rest)
  from "1.prems" have ab: "\<not> ((a = CHR ''{'' \<and> b = CHR ''{'') \<or> (a = CHR ''}'' \<and> b = CHR ''}''))"
    by auto
  from "1.prems" have "\<not> has_pair CHR ''}'' ((b # rest) @ ''}'')" "\<not> has_pair CHR ''{'' (b # rest)"
    by auto
  with "1.IH"(2) [OF ab] have "strip_braces ((b # rest) @ ''}}'') = b # rest" .
  moreover from ab have "strip_braces ((a # b # rest) @ ''}}'') = a # strip_braces ((b # rest) @ ''}}'')"
    by auto
  ultimately show ?case by simp
qed simp_all

lemma strip_braces_token:
  "lazy_capture k \<Longrightarrow> \<not> has_pair CHR ''{'' k \<Longrightarrow> strip_braces (''{{'' @ k @ ''}}'') = k"
  using strip_braces_capture [of k] by (simp add: lazy_capture_def)

text \<open>
  C2, as amended. Let no placeholder of the text \<open>T\<close> hold \<open>{{\<close> between its braces, let the
  lookups of every placeholder of \<open>T\<close> stay with own properties, and let no value that is
  substituted for a placeholder of \<open>T\<close> hold an opening brace. Then substitution succeeds,
  and the keys extracted from its result are exactly the keys extracted from \<open>T\<close> that are
  not mapped and present: those with no entry in the mapping, or with the entry \<open>null\<close> or
  the empty string, or whose column the row lacks.
\<close>

theorem reextract_after_substitution:
  assumes "list_all (\<lambda>k. \<not> has_pair CHR ''{'' k) (captures T)"
    and "list_all (\<lambda>k. own_lookups m r (trim k)) (captures T)"
    and "list_all (\<lambda>k. case own_value m r (trim k) of
                          Some v \<Rightarrow> CHR ''{'' \<notin> set v | None \<Rightarrow> True) (captures T)"
  shows "\<exists>out. substitute m r T = Inr out \<and>
           set (template_keys out) =
             {key \<in> set (template_keys T). \<not> mapped_and_present m r key}"
proof -
  from captures_substitute [OF assms(2,3)] obtain out where out: "substitute m r T = Inr out"
    and c: "captures out = filter (\<lambda>k. \<not> mapped_and_present m r (trim k)) (captures T)"
    by blast
  have key: "trim (strip_braces (''{{'' @ k @ ''}}'')) = trim k" if "k \<in> set (captures T)" for k
  proof -
    from that assms(1) have "\<not> has_pair CHR ''{'' k" by (simp add: list_all_iff)
    with captures_lazy [OF that] have "strip_braces (''{{'' @ k @ ''}}'') = k"
      by (rule strip_braces_token)
    then show ?thesis by (simp only:)
  qed
  have "set (template_keys out) =
          (\<lambda>k. trim (strip_braces (''{{'' @ k @ ''}}''))) `
            {k \<in> set (captures T). \<not> mapped_and_present m r (trim k)}"
    by (simp add: set_template_keys c)
  also have "\<dots> = trim ` {k \<in> set (captures T). \<not> mapped_and_present m r (trim k)}"
    using key by (intro image_cong) auto
  also have "\<dots> = {key \<in> trim ` set (captures T). \<not> mapped_and_present m r key}"
    by auto
  also have "trim ` set (captures T) = set (template_keys T)"
    using key by (simp add: set_template_keys cong: image_cong)
  finally show ?thesis using out by blast
qed

theorem reextract_after_substitution_witness:
  "list_all (\<lambda>k. \<not> has_pair CHR ''{'' k) (captures ''Dear {{ NAME }}, {{CITY}} {{X}}'') \<and>
   list_all (\<lambda>k. own_lookups (plain [(''NAME'', Some ''Name''), (''CITY'', None)])
                    (plain [(''Name'', ''Ana''), (''Note'', ''{ok}'')]) (trim k))
     (captures ''Dear {{ NAME }}, {{CITY}} {{X}}'') \<and>
   list_all (\<lambda>k. case own_value (plain [(''NAME'', Some ''Name''), (''CITY'', None)])
                         (plain [(''Name'', ''Ana''), (''Note'', ''{ok}'')]) (trim k) of
                    Some v \<Rightarrow> CHR ''{'' \<notin> set v | None \<Rightarrow> True)
     (captures ''Dear {{ NAME }}, {{CITY}} {{X}}'') \<and>
   (\<exists>out. substitute (plain [(''NAME'', Some ''Name''), (''CITY'', None)])
            (plain [(''Name'', ''Ana''), (''Note'', ''{ok}'')])
            ''Dear {{ NAME }}, {{CITY}} {{X}}'' = Inr out \<and>
          set (template_keys out) =
            {key \<in> set (template_keys ''Dear {{ NAME }}, {{CITY}} {{X}}'').
               \<not> mapped_and_present (plain [(''NAME'', Some ''Name''), (''CITY'', None)])
                   (plain [(''Name'', ''Ana''), (''Note'', ''{ok}'')]) key})"
proof -
  have c: "captures ''Dear {{ NAME }}, {{CITY}} {{X}}'' = ['' NAME '', ''CITY'', ''X'']"
    by (simp add: captures_def regex_exec_def is_line_terminator_def)
  have t: "trim '' NAME '' = ''NAME''" "trim ''CITY'' = ''CITY''" "trim ''X'' = ''X''"
    by (simp_all add: trim_def is_white_space_def)
  have h1: "list_all (\<lambda>k. \<not> has_pair CHR ''{'' k) (captures ''Dear {{ NAME }}, {{CITY}} {{X}}'')"
    by (simp add: c)
  have h2: "list_all (\<lambda>k. own_lookups (plain [(''NAME'', Some ''Name''), (''CITY'', None)])
                    (plain [(''Name'', ''Ana''), (''Note'', ''{ok}'')]) (trim k))
     (captures ''Dear {{ NAME }}, {{CITY}} {{X}}'')"
    by (simp add: c t own_lookups_def inherited_def plain_def object_prototype_names_def)
  have h3: "list_all (\<lambda>k. case own_value (plain [(''NAME'', Some ''Name''), (''CITY'', None)])
                         (plain [(''Name'', ''Ana''), (''Note'', ''{ok}'')]) (trim k) of
                    Some v \<Rightarrow> CHR ''{'' \<notin> set v | None \<Rightarrow> True)
     (captures ''Dear {{ NAME }}, {{CITY}} {{X}}'')"
    by (simp add: c t own_value_def plain_def)
  from reextract_after_substitution [OF h1 h2 h3] h1 h2 h3 show ?thesis
    by (simp only: simp_thms)
qed

text \<open>
  Without the condition on the values the claim fails: the key \<open>A\<close> is mapped and present,
  its value \<open>{{Z}}\<close> is copied into the text (braces are not escaped), and extraction from
  the result reports \<open>Z\<close>, which is no key of the template.
\<close>

theorem reextract_after_substitution_counterexample:
  "substitute (plain [(''A'', Some ''c'')]) (plain [(''c'', ''{{Z}}'')]) ''{{A}}'' = Inr ''{{Z}}'' \<and>
   set (template_keys ''{{Z}}'') \<noteq>
     {key \<in> set (template_keys ''{{A}}'').
        \<not> mapped_and_present (plain [(''A'', Some ''c'')]) (plain [(''c'', ''{{Z}}'')]) key}"
proof -
  have s: "substitute (plain [(''A'', Some ''c'')]) (plain [(''c'', ''{{Z}}'')]) ''{{A}}'' = Inr ''{{Z}}''"
    by (simp add: substitute_def string_replace_def regex_exec_def is_line_terminator_def
        replacer_def trim_def is_white_space_def escapeXml_def plain_def obj_get_def)
  have z: "template_keys ''{{Z}}'' = [''Z'']"
    by (simp add: template_keys_def string_match_def regex_exec_def is_line_terminator_def
        trim_def is_white_space_def array_from_set_def set_add_def)
  have a: "template_keys ''{{A}}'' = [''A'']"
    by (simp add: template_keys_def string_match_def regex_exec_def is_line_terminator_def
        trim_def is_white_space_def array_from_set_def set_add_def)
  have "''Z'' \<in> set (template_keys ''{{Z}}'')"
    by (simp add: z)
  moreover have "''Z'' \<notin> {key \<in> set (template_keys ''{{A}}'').
        \<not> mapped_and_present (plain [(''A'', Some ''c'')]) (plain [(''c'', ''{{Z}}'')]) key}"
    by (simp add: a)
  ultimately have "set (template_keys ''{{Z}}'') \<noteq>
     {key \<in> set (template_keys ''{{A}}'').
        \<not> mapped_and_present (plain [(''A'', Some ''c'')]) (plain [(''c'', ''{{Z}}'')]) key}"
    by metis
  with s show ?thesis by (simp only: simp_thms)
qed

end
